theory Spec2Isabelle
  imports Main "HOL-Library.Word"
begin

unbundle bit_operations_syntax

section \<open>Data model of app/src/demuxer.c\<close>

type_synonym u8 = "8 word"
type_synonym u32 = "32 word"
type_synonym u64 = "64 word"

text \<open>
  The codec identifiers and media types of libavcodec that the demuxer produces or tests.
\<close>

datatype AVCodecID =
  AV_CODEC_ID_NONE | AV_CODEC_ID_H264 | AV_CODEC_ID_HEVC | AV_CODEC_ID_AV1 | AV_CODEC_ID_OPUS

datatype AVMediaType =
  AVMEDIA_TYPE_UNKNOWN | AVMEDIA_TYPE_VIDEO | AVMEDIA_TYPE_AUDIO

record AVCodec =
  codec_id :: AVCodecID
  codec_type :: AVMediaType

text \<open>
  The fields of an \<open>AVPacket\<close> that the demuxer writes: \<open>pts\<close> and \<open>dts\<close> are
  \<open>int64_t\<close>, \<open>flags\<close> is an \<open>int\<close>, \<open>data\<close> is the payload buffer and its
  length is the field \<open>size\<close>.
\<close>

record AVPacket =
  pts :: u64
  dts :: u64
  flags :: u32
  data :: "u8 list"

definition AV_NOPTS_VALUE :: u64 where
  "AV_NOPTS_VALUE = 0x8000000000000000"

definition AV_PKT_FLAG_KEY :: u32 where
  "AV_PKT_FLAG_KEY = 0x0001"

text \<open>
  The packet that \<open>av_packet_alloc\<close>, \<open>av_new_packet\<close> and \<open>av_packet_unref\<close> leave
  behind: no timestamps, no flags, no payload.
\<close>

definition blank_packet :: AVPacket where
  "blank_packet = \<lparr>pts = AV_NOPTS_VALUE, dts = AV_NOPTS_VALUE, flags = 0, data = []\<rparr>"

text \<open>
  What the session does to its surroundings, in the order it does it: the calls of the
  sinks' operations with their results, and the call of \<open>cbs->on_ended\<close> with the
  end-of-stream flag.
\<close>

datatype event =
  EvOpen nat bool
  | EvPush nat AVPacket bool
  | EvClose nat
  | EvEnded bool

text \<open>
  The state that a session changes: the bytes that the socket will still deliver before the
  peer closes it, and the events so far.
\<close>

record world =
  sock :: "u8 list"
  trace :: "event list"

text \<open>
  \<open>struct sc_packet_sink\<close> with the function pointers of its \<open>ops\<close>. The sinks are
  external; the result of a call may depend on everything that happened before, so each
  operation reads the events so far. \<open>close\<close> returns nothing.
\<close>

record sc_packet_sink =
  sink_open :: "event list \<Rightarrow> AVCodec \<Rightarrow> bool"
  sink_push :: "event list \<Rightarrow> AVPacket \<Rightarrow> bool"

text \<open>
  \<open>struct sc_demuxer\<close>: the array \<open>sinks\<close> with its \<open>sink_count\<close> first entries in
  use, as a list in registration order.
\<close>

record sc_demuxer =
  sinks :: "sc_packet_sink list"

definition sink_count :: "sc_demuxer \<Rightarrow> nat" where
  "sink_count d = length (sinks d)"

text \<open>
  What the file calls and does not define. \<open>avcodec_find_decoder\<close>, \<open>av_packet_alloc\<close>
  and \<open>av_new_packet\<close> belong to FFmpeg; an allocation may fail at any point of the
  session. The packet merger (\<open>packet_merger.h\<close>) has a state of type \<open>'m\<close>;
  \<open>sc_packet_merger_merge\<close> returns its \<open>bool\<close>, the merger and the packet as it
  leaves them. \<open>NDEBUG\<close> is the macro of the build that makes \<open>assert\<close> of
  \<open>assert.h\<close> expand to nothing; the file does not define it, the build may.
\<close>

record 'm environment =
  NDEBUG :: bool
  avcodec_find_decoder :: "AVCodecID \<Rightarrow> AVCodec option"
  av_packet_alloc_ok :: "event list \<Rightarrow> bool"
  av_new_packet_ok :: "event list \<Rightarrow> u32 \<Rightarrow> bool"
  merger_init :: "'m"
  merger_merge :: "'m \<Rightarrow> AVPacket \<Rightarrow> bool \<times> 'm \<times> AVPacket"

text \<open>
  A function either returns, with a value and the state it leaves, or the process aborts at
  a failed \<open>assert\<close> of a build without \<open>NDEBUG\<close>, in the state reached.
\<close>

datatype 'a exec = Abort world | Return 'a world

fun final :: "'a exec \<Rightarrow> world" where
  "final (Abort w) = w"
| "final (Return _ w) = w"

section \<open>Helpers that the file uses\<close>

text \<open>
  Modelled from the spec: \<open>net_recv_all\<close> (util/net.c is not among the sources). The socket
  is one ordered, reliable byte stream; a read of \<open>len\<close> bytes returns them all while the
  stream has that many left, and a short read with what is left once the peer has closed.
\<close>

definition net_recv_all :: "world \<Rightarrow> nat \<Rightarrow> int \<times> u8 list \<times> world" where
  "net_recv_all s len =
     (if len \<le> length (sock s)
      then (int len, take len (sock s), s\<lparr>sock := drop len (sock s)\<rparr>)
      else (int (length (sock s)), sock s, s\<lparr>sock := []\<rparr>))"

text \<open>
  Modelled from the spec: \<open>sc_read32be\<close> and \<open>sc_read64be\<close> (util/binary.h is not among
  the sources): big-endian unsigned integers of 32 and 64 bits.
\<close>

definition sc_read32be :: "u8 list \<Rightarrow> u32" where
  "sc_read32be buf =
     push_bit 24 (ucast (buf ! 0)) OR push_bit 16 (ucast (buf ! 1))
       OR push_bit 8 (ucast (buf ! 2)) OR ucast (buf ! 3)"

definition sc_read64be :: "u8 list \<Rightarrow> u64" where
  "sc_read64be buf =
     (let msb = sc_read32be buf; lsb = sc_read32be (drop 4 buf)
      in push_bit 32 (ucast msb) OR ucast lsb)"

section \<open>The functions of demuxer.c\<close>

definition SC_PACKET_HEADER_SIZE :: nat where
  "SC_PACKET_HEADER_SIZE = 12"

definition SC_PACKET_FLAG_CONFIG :: u64 where
  "SC_PACKET_FLAG_CONFIG = push_bit 63 1"

definition SC_PACKET_FLAG_KEY_FRAME :: u64 where
  "SC_PACKET_FLAG_KEY_FRAME = push_bit 62 1"

definition SC_PACKET_PTS_MASK :: u64 where
  "SC_PACKET_PTS_MASK = SC_PACKET_FLAG_KEY_FRAME - 1"

definition SC_CODEC_ID_H264 :: u32 where "SC_CODEC_ID_H264 = 0x68323634"
definition SC_CODEC_ID_H265 :: u32 where "SC_CODEC_ID_H265 = 0x68323635"
definition SC_CODEC_ID_AV1 :: u32 where "SC_CODEC_ID_AV1 = 0x00617631"
definition SC_CODEC_ID_OPUS :: u32 where "SC_CODEC_ID_OPUS = 0x6f707573"

definition sc_demuxer_to_avcodec_id :: "u32 \<Rightarrow> AVCodecID" where
  "sc_demuxer_to_avcodec_id raw =
     (if raw = SC_CODEC_ID_H264 then AV_CODEC_ID_H264
      else if raw = SC_CODEC_ID_H265 then AV_CODEC_ID_HEVC
      else if raw = SC_CODEC_ID_AV1 then AV_CODEC_ID_AV1
      else if raw = SC_CODEC_ID_OPUS then AV_CODEC_ID_OPUS
      else AV_CODEC_ID_NONE)"

text \<open>\<open>None\<close> is the result \<open>false\<close>, which leaves \<open>*codec_id\<close> unset.\<close>

definition sc_demuxer_recv_codec_id :: "world \<Rightarrow> u32 option \<times> world" where
  "sc_demuxer_recv_codec_id s =
     (case net_recv_all s 4 of
        (r, buf, s') \<Rightarrow> if r < 4 then (None, s') else (Some (sc_read32be buf), s'))"

text \<open>
  Lines 98 to 108 of \<open>sc_demuxer_recv_packet\<close>: the timestamps and the flags of the packet
  from the first field of the header.
\<close>

definition set_pts_flags :: "u64 \<Rightarrow> AVPacket \<Rightarrow> AVPacket" where
  "set_pts_flags pts_flags packet =
     (let p1 = (if pts_flags AND SC_PACKET_FLAG_CONFIG \<noteq> 0
                then packet\<lparr>pts := AV_NOPTS_VALUE\<rparr>
                else packet\<lparr>pts := pts_flags AND SC_PACKET_PTS_MASK\<rparr>);
          p2 = (if pts_flags AND SC_PACKET_FLAG_KEY_FRAME \<noteq> 0
                then p1\<lparr>flags := flags p1 OR AV_PKT_FLAG_KEY\<rparr>
                else p1)
      in p2\<lparr>dts := pts p2\<rparr>)"

text \<open>
  \<open>None\<close> is the result \<open>false\<close>; the packet is then blank. \<open>assert(len)\<close> aborts
  the process on a length of zero in a build without \<open>NDEBUG\<close> and is nothing in a build
  with it; the function has no other test of \<open>len\<close>, and goes on with a buffer and a read
  of zero bytes.
\<close>

definition sc_demuxer_recv_packet :: "'m environment \<Rightarrow> world \<Rightarrow> AVPacket option exec" where
  "sc_demuxer_recv_packet env s =
     (case net_recv_all s SC_PACKET_HEADER_SIZE of
        (r, header, s1) \<Rightarrow>
          if r < int SC_PACKET_HEADER_SIZE then Return None s1
          else
            let pts_flags = sc_read64be header;
                len = sc_read32be (drop 8 header)
            in if len = 0 \<and> \<not> NDEBUG env then Abort s1
               else if \<not> av_new_packet_ok env (trace s1) len then Return None s1
               else
                 (case net_recv_all s1 (unat len) of
                    (r, payload, s2) \<Rightarrow>
                      if r < 0 \<or> (word_of_int r :: u32) < len then Return None s2
                      else Return (Some (set_pts_flags pts_flags
                                           (blank_packet\<lparr>data := payload\<rparr>))) s2))"

function push_packet_to_sinks_from ::
  "sc_demuxer \<Rightarrow> AVPacket \<Rightarrow> nat \<Rightarrow> world \<Rightarrow> bool \<times> world" where
  "push_packet_to_sinks_from d packet i s =
     (if i < sink_count d
      then
        let sink = sinks d ! i;
            ok = sink_push sink (trace s) packet;
            s' = s\<lparr>trace := trace s @ [EvPush i packet ok]\<rparr>
        in if \<not> ok then (False, s')
           else push_packet_to_sinks_from d packet (i + 1) s'
      else (True, s))"
  by pat_completeness auto
termination
  by (relation "measure (\<lambda>(d, packet, i, s). sink_count d - i)") auto

definition push_packet_to_sinks :: "sc_demuxer \<Rightarrow> AVPacket \<Rightarrow> world \<Rightarrow> bool \<times> world" where
  "push_packet_to_sinks d packet s = push_packet_to_sinks_from d packet 0 s"

definition sc_demuxer_push_packet :: "sc_demuxer \<Rightarrow> AVPacket \<Rightarrow> world \<Rightarrow> bool \<times> world" where
  "sc_demuxer_push_packet d packet s =
     (case push_packet_to_sinks d packet s of
        (ok, s') \<Rightarrow> if \<not> ok then (False, s') else (True, s'))"

primrec sc_demuxer_close_first_sinks :: "sc_demuxer \<Rightarrow> nat \<Rightarrow> world \<Rightarrow> world" where
  "sc_demuxer_close_first_sinks d 0 s = s"
| "sc_demuxer_close_first_sinks d (Suc count) s =
     sc_demuxer_close_first_sinks d count (s\<lparr>trace := trace s @ [EvClose count]\<rparr>)"

definition sc_demuxer_close_sinks :: "sc_demuxer \<Rightarrow> world \<Rightarrow> world" where
  "sc_demuxer_close_sinks d s = sc_demuxer_close_first_sinks d (sink_count d) s"

function sc_demuxer_open_sinks_from ::
  "sc_demuxer \<Rightarrow> AVCodec \<Rightarrow> nat \<Rightarrow> world \<Rightarrow> bool \<times> world" where
  "sc_demuxer_open_sinks_from d codec i s =
     (if i < sink_count d
      then
        let sink = sinks d ! i;
            ok = sink_open sink (trace s) codec;
            s' = s\<lparr>trace := trace s @ [EvOpen i ok]\<rparr>
        in if \<not> ok then (False, sc_demuxer_close_first_sinks d i s')
           else sc_demuxer_open_sinks_from d codec (i + 1) s'
      else (True, s))"
  by pat_completeness auto
termination
  by (relation "measure (\<lambda>(d, codec, i, s). sink_count d - i)") auto

definition sc_demuxer_open_sinks :: "sc_demuxer \<Rightarrow> AVCodec \<Rightarrow> world \<Rightarrow> bool \<times> world" where
  "sc_demuxer_open_sinks d codec s = sc_demuxer_open_sinks_from d codec 0 s"


text \<open>
  The loop of \<open>run_demuxer\<close> ends, since each packet read takes its header from the
  socket and a push leaves the socket as it is.
\<close>

lemma net_recv_all_sock_le:
  "net_recv_all s len = (r, buf, s') \<Longrightarrow> length (sock s') \<le> length (sock s)"
  by (auto simp: net_recv_all_def split: if_splits)

lemma net_recv_all_sock_less:
  "net_recv_all s len = (r, buf, s') \<Longrightarrow> 0 < len \<Longrightarrow> int len \<le> r
     \<Longrightarrow> length (sock s') < length (sock s)"
  by (auto simp: net_recv_all_def split: if_splits)

lemma sc_demuxer_recv_packet_sock_less:
  assumes "sc_demuxer_recv_packet env s = Return (Some packet) s'"
  shows "length (sock s') < length (sock s)"
proof -
  obtain r header s1 where h: "net_recv_all s SC_PACKET_HEADER_SIZE = (r, header, s1)"
    by (cases "net_recv_all s SC_PACKET_HEADER_SIZE") auto
  obtain r2 payload s2
    where p: "net_recv_all s1 (unat (sc_read32be (drop 8 header))) = (r2, payload, s2)"
    by (cases "net_recv_all s1 (unat (sc_read32be (drop 8 header)))") auto
  from assms h p have r: "\<not> r < int SC_PACKET_HEADER_SIZE" and s2: "s' = s2"
    by (auto simp: sc_demuxer_recv_packet_def Let_def split: if_splits)
  from h r have "length (sock s1) < length (sock s)"
    by (intro net_recv_all_sock_less [OF h]) (simp_all add: SC_PACKET_HEADER_SIZE_def)
  moreover from p have "length (sock s2) \<le> length (sock s1)"
    by (rule net_recv_all_sock_le)
  ultimately show ?thesis using s2 by simp
qed

lemma push_packet_to_sinks_from_sock:
  "push_packet_to_sinks_from d packet i s = (ok, s') \<Longrightarrow> sock s' = sock s"
proof (induction d packet i s rule: push_packet_to_sinks_from.induct)
  case (1 d packet i s)
  show ?case
  proof (cases "i < sink_count d")
    case False
    with "1.prems" show ?thesis by simp
  next
    case True
    show ?thesis
    proof (cases "sink_push (sinks d ! i) (trace s) packet")
      case False
      with True "1.prems" show ?thesis by (auto simp: Let_def)
    next
      case ok: True
      let ?s = "s\<lparr>trace := trace s @ [EvPush i packet True]\<rparr>"
      from True ok "1.prems"
      have "push_packet_to_sinks_from d packet (i + 1) ?s = (ok, s')"
        by (simp add: Let_def)
      with "1.IH" [OF True refl refl refl] ok have "sock s' = sock ?s" by simp
      then show ?thesis by simp
    qed
  qed
qed

lemma sc_demuxer_push_packet_sock:
  assumes "sc_demuxer_push_packet d packet s = (ok, s')"
  shows "sock s' = sock s"
proof -
  obtain ok1 s1 where p: "push_packet_to_sinks_from d packet 0 s = (ok1, s1)"
    by (cases "push_packet_to_sinks_from d packet 0 s") auto
  with assms have "s' = s1"
    by (simp add: sc_demuxer_push_packet_def push_packet_to_sinks_def split: if_splits)
  with push_packet_to_sinks_from_sock [OF p] show ?thesis by simp
qed

text \<open>
  The body of \<open>if (must_merge_config_packet)\<close> in the loop. The merger is \<open>None\<close>
  where \<open>must_merge_config_packet\<close> is false and the struct is left uninitialised.
\<close>

definition merge_config_packet ::
  "'m environment \<Rightarrow> 'm option \<Rightarrow> AVPacket \<Rightarrow> bool \<times> 'm option \<times> AVPacket" where
  "merge_config_packet env merger packet =
     (case merger of
        None \<Rightarrow> (True, None, packet)
      | Some m \<Rightarrow>
          (case merger_merge env m packet of
             (ok, m', packet') \<Rightarrow> (ok, Some m', packet')))"

text \<open>
  The loop \<open>for (;;)\<close> of \<open>run_demuxer\<close>; it returns \<open>eos\<close>, which is false when the
  loop starts.
\<close>

function demux_loop ::
  "'m environment \<Rightarrow> sc_demuxer \<Rightarrow> 'm option \<Rightarrow> world \<Rightarrow> bool exec" where
  "demux_loop env d merger s =
     (case sc_demuxer_recv_packet env s of
        Abort w \<Rightarrow> Abort w
      | Return None s1 \<Rightarrow> Return True s1
      | Return (Some packet) s1 \<Rightarrow>
          (case merge_config_packet env merger packet of
             (ok, merger', packet') \<Rightarrow>
               if \<not> ok then Return False s1
               else
                 (case sc_demuxer_push_packet d packet' s1 of
                    (ok, s2) \<Rightarrow>
                      if \<not> ok then Return False s2
                      else demux_loop env d merger' s2)))"
  by pat_completeness auto
termination
proof (relation "measure (\<lambda>(env, d, merger, s). length (sock s))", goal_cases)
  case 1
  show ?case by simp
next
  case 2
  then show ?case
    using sc_demuxer_recv_packet_sock_less sc_demuxer_push_packet_sock [OF sym]
    by fastforce
qed

definition on_ended :: "bool \<Rightarrow> world \<Rightarrow> int exec" where
  "on_ended eos s = Return 0 (s\<lparr>trace := trace s @ [EvEnded eos]\<rparr>)"

definition run_demuxer :: "'m environment \<Rightarrow> sc_demuxer \<Rightarrow> world \<Rightarrow> int exec" where
  "run_demuxer env d s =
     (case sc_demuxer_recv_codec_id s of
        (None, s1) \<Rightarrow> on_ended True s1
      | (Some raw_codec_id, s1) \<Rightarrow>
          let cid = sc_demuxer_to_avcodec_id raw_codec_id
          in if cid = AV_CODEC_ID_NONE then on_ended False s1
             else
               (case avcodec_find_decoder env cid of
                  None \<Rightarrow> on_ended False s1
                | Some codec \<Rightarrow>
                    (case sc_demuxer_open_sinks d codec s1 of
                       (False, s2) \<Rightarrow> on_ended False s2
                     | (True, s2) \<Rightarrow>
                         let must_merge_config_packet = (codec_type codec = AVMEDIA_TYPE_VIDEO);
                             merger = (if must_merge_config_packet
                                       then Some (merger_init env) else None)
                         in if \<not> av_packet_alloc_ok env (trace s2)
                            then on_ended False (sc_demuxer_close_sinks d s2)
                            else
                              (case demux_loop env d merger s2 of
                                 Abort w \<Rightarrow> Abort w
                               | Return eos s3 \<Rightarrow>
                                   on_ended eos (sc_demuxer_close_sinks d s3)))))"


text \<open>
  \<open>sc_demuxer_init\<close> and \<open>sc_demuxer_add_sink\<close>, as far as the sinks go.
  \<open>SC_DEMUXER_MAX_SINKS\<close> is defined in demuxer.h, which is not among the sources, and is
  a parameter here. \<open>None\<close> is a full array: the \<open>assert\<close> aborts the process, or,
  in a build with \<open>NDEBUG\<close>, the write is past the end of the array and the program has
  no defined behaviour.
\<close>

definition sc_demuxer_init :: sc_demuxer where
  "sc_demuxer_init = \<lparr>sinks = []\<rparr>"

definition sc_demuxer_add_sink ::
  "nat \<Rightarrow> sc_demuxer \<Rightarrow> sc_packet_sink \<Rightarrow> sc_demuxer option" where
  "sc_demuxer_add_sink max_sinks d sink =
     (if sink_count d < max_sinks then Some (d\<lparr>sinks := sinks d @ [sink]\<rparr>) else None)"

section \<open>The wire format and the packet merger, as the specification words them\<close>

text \<open>
  Modelled from the spec: the sender's side of the wire format (the server is not among the
  sources). A header is the field \<open>pts_flags\<close>, big-endian on 8 bytes, then the length
  of the payload, big-endian on 4 bytes; \<open>pts_flags\<close> has the config flag in bit 63, the
  key-frame flag in bit 62 and the presentation timestamp in bits 0 to 61.
\<close>

definition be32 :: "u32 \<Rightarrow> u8 list" where
  "be32 w = [ucast (drop_bit 24 w), ucast (drop_bit 16 w), ucast (drop_bit 8 w), ucast w]"

definition be64 :: "u64 \<Rightarrow> u8 list" where
  "be64 w = be32 (ucast (drop_bit 32 w)) @ be32 (ucast w)"

definition encode_pts_flags :: "u64 \<Rightarrow> bool \<Rightarrow> bool \<Rightarrow> u64" where
  "encode_pts_flags ts is_config is_key_frame =
     (if is_config then push_bit 63 1 else 0)
       OR (if is_key_frame then push_bit 62 1 else 0) OR ts"

definition wire_packet :: "u64 \<Rightarrow> bool \<Rightarrow> bool \<Rightarrow> u8 list \<Rightarrow> u8 list" where
  "wire_packet ts is_config is_key_frame payload =
     be64 (encode_pts_flags ts is_config is_key_frame) @ be32 (of_nat (length payload))
       @ payload"

text \<open>The packet that the demuxer is to build from such a wire packet.\<close>

definition packet_of :: "u64 \<Rightarrow> bool \<Rightarrow> bool \<Rightarrow> u8 list \<Rightarrow> AVPacket" where
  "packet_of ts is_config is_key_frame payload =
     \<lparr>pts = (if is_config then AV_NOPTS_VALUE else ts),
      dts = (if is_config then AV_NOPTS_VALUE else ts),
      flags = (if is_key_frame then AV_PKT_FLAG_KEY else 0),
      data = payload\<rparr>"

text \<open>
  A wire packet as its timestamp, its two flags and its payload. It is well formed when the
  timestamp fits the 62 bits of the header and the payload is not empty and has a length
  that fits the 32 bits of the header.
\<close>

type_synonym frame = "u64 \<times> bool \<times> bool \<times> u8 list"

definition well_formed :: "frame \<Rightarrow> bool" where
  "well_formed f =
     (case f of (ts, is_config, is_key_frame, payload) \<Rightarrow>
        ts < 2 ^ 62 \<and> payload \<noteq> [] \<and> length payload < 2 ^ 32)"

definition wire_frame :: "frame \<Rightarrow> u8 list" where
  "wire_frame f =
     (case f of (ts, is_config, is_key_frame, payload) \<Rightarrow>
        wire_packet ts is_config is_key_frame payload)"

definition frame_packet :: "frame \<Rightarrow> AVPacket" where
  "frame_packet f =
     (case f of (ts, is_config, is_key_frame, payload) \<Rightarrow>
        packet_of ts is_config is_key_frame payload)"

text \<open>
  Modelled from the spec: the packet merger (\<open>sc_packet_merger_init\<close> and
  \<open>sc_packet_merger_merge\<close> of packet_merger.c, which is not among the sources). It is
  idle, or accumulating with a pending buffer. A config packet, which is a packet with the
  "no timestamp" sentinel, has its payload appended to the pending buffer and is itself
  discarded: the merger leaves the blank packet. A media packet that finds the merger
  accumulating gets the pending buffer before its own payload, keeps its timestamp and
  flags, and leaves the merger idle; a media packet that finds the merger idle is
  unchanged. The specification names no failure of the merger, and the session goes on
  after a config packet: the result is \<open>true\<close>. What is done with the packet after the
  merge is decided by \<open>run_demuxer\<close>, which the sources contain.
\<close>

datatype sc_packet_merger = Idle | Accumulating "u8 list"

definition sc_packet_merger_init :: sc_packet_merger where
  "sc_packet_merger_init = Idle"

fun pending :: "sc_packet_merger \<Rightarrow> u8 list" where
  "pending Idle = []"
| "pending (Accumulating buf) = buf"

definition sc_packet_merger_merge ::
  "sc_packet_merger \<Rightarrow> AVPacket \<Rightarrow> bool \<times> sc_packet_merger \<times> AVPacket" where
  "sc_packet_merger_merge merger packet =
     (if pts packet = AV_NOPTS_VALUE
      then (True, Accumulating (pending merger @ data packet), blank_packet)
      else
        (case merger of
           Idle \<Rightarrow> (True, Idle, packet)
         | Accumulating buf \<Rightarrow> (True, Idle, packet\<lparr>data := buf @ data packet\<rparr>)))"

section \<open>Traces\<close>

text \<open>
  The events of the successful opens and pushes of the sinks \<open>i\<close> to \<open>k - 1\<close> in
  registration order, and of the closes of the first \<open>count\<close> sinks in reverse order.
\<close>

definition opens :: "nat \<Rightarrow> nat \<Rightarrow> event list" where
  "opens i k = map (\<lambda>j. EvOpen j True) [i..<k]"

definition pushes :: "AVPacket \<Rightarrow> nat \<Rightarrow> nat \<Rightarrow> event list" where
  "pushes packet i k = map (\<lambda>j. EvPush j packet True) [i..<k]"

definition closes :: "nat \<Rightarrow> event list" where
  "closes count = map EvClose (rev [0..<count])"

definition add_events :: "world \<Rightarrow> event list \<Rightarrow> world" where
  "add_events s es = s\<lparr>trace := trace s @ es\<rparr>"

text \<open>The successful pushes.\<close>

definition push_ok :: "event \<Rightarrow> bool" where
  "push_ok e = (case e of EvPush _ _ ok \<Rightarrow> ok | _ \<Rightarrow> False)"

text \<open>
  What the loop adds to the trace: successful pushes, and at most one failed push, which is
  then the last event, ends the loop with \<open>eos\<close> false and follows the successful pushes
  of the same packet to the sinks before it.
\<close>

definition loop_events ::
  "sc_demuxer \<Rightarrow> world \<Rightarrow> bool exec \<Rightarrow> bool" where
  "loop_events d s r \<longleftrightarrow>
     (\<exists>P. (\<forall>e\<in>set P. push_ok e) \<and>
        (trace (final r) = trace s @ P
         \<or> (\<exists>i p pre w. i < sink_count d \<and> P = pre @ pushes p 0 i \<and> r = Return False w
               \<and> trace w = trace s @ P @ [EvPush i p False])))"

text \<open>
  The events of a session that are neither a successful open nor a close nor the call of
  \<open>on_ended\<close>.
\<close>

definition middle_event :: "event \<Rightarrow> bool" where
  "middle_event e =
     (case e of EvOpen _ ok \<Rightarrow> \<not> ok | EvPush _ _ _ \<Rightarrow> True | EvClose _ \<Rightarrow> False
      | EvEnded _ \<Rightarrow> False)"

text \<open>The packets offered to the sinks, in the order of the pushes.\<close>

definition pushed_packets :: "event list \<Rightarrow> AVPacket list" where
  "pushed_packets es = concat (map (\<lambda>e. case e of EvPush _ p _ \<Rightarrow> [p] | _ \<Rightarrow> []) es)"

text \<open>The events that a session adds to the trace.\<close>

definition session_events :: "'m environment \<Rightarrow> sc_demuxer \<Rightarrow> world \<Rightarrow> event list" where
  "session_events env d s = drop (length (trace s)) (trace (final (run_demuxer env d s)))"

declare demux_loop.simps [simp del]

section \<open>Sample sessions\<close>

text \<open>
  Sinks that accept everything, refuse to open, or fail every push; an environment in which
  assertions are compiled in, every decoder is found, with the audio media type for opus
  and the video media type otherwise, every allocation succeeds and the merger is the one
  of the specification; the same environment with assertions compiled out.
\<close>

definition accepting_sink :: sc_packet_sink where
  "accepting_sink = \<lparr>sink_open = (\<lambda>_ _. True), sink_push = (\<lambda>_ _. True)\<rparr>"

definition sample_find_decoder :: "AVCodecID \<Rightarrow> AVCodec option" where
  "sample_find_decoder cid =
     (if cid = AV_CODEC_ID_OPUS
      then Some \<lparr>codec_id = cid, codec_type = AVMEDIA_TYPE_AUDIO\<rparr>
      else Some \<lparr>codec_id = cid, codec_type = AVMEDIA_TYPE_VIDEO\<rparr>)"

definition sample_env :: "sc_packet_merger environment" where
  "sample_env =
     \<lparr>NDEBUG = False,
      avcodec_find_decoder = sample_find_decoder,
      av_packet_alloc_ok = (\<lambda>_. True),
      av_new_packet_ok = (\<lambda>_ _. True),
      merger_init = sc_packet_merger_init,
      merger_merge = sc_packet_merger_merge\<rparr>"

definition refusing_sink :: sc_packet_sink where
  "refusing_sink = \<lparr>sink_open = (\<lambda>_ _. False), sink_push = (\<lambda>_ _. True)\<rparr>"

definition choking_sink :: sc_packet_sink where
  "choking_sink = \<lparr>sink_open = (\<lambda>_ _. True), sink_push = (\<lambda>_ _. False)\<rparr>"

definition tag_h264 :: "u8 list" where
  "tag_h264 = [0x68, 0x32, 0x36, 0x34]"

definition tag_opus :: "u8 list" where
  "tag_opus = [0x6f, 0x70, 0x75, 0x73]"

definition one_sink :: sc_demuxer where
  "one_sink = \<lparr>sinks = [accepting_sink]\<rparr>"

definition second_refuses :: sc_demuxer where
  "second_refuses = \<lparr>sinks = [accepting_sink, refusing_sink, accepting_sink]\<rparr>"

definition second_chokes :: sc_demuxer where
  "second_chokes = \<lparr>sinks = [accepting_sink, choking_sink, accepting_sink]\<rparr>"

text \<open>
  An environment without memory for a payload, and one in which \<open>av_new_packet\<close>, which
  takes the size as an \<open>int\<close>, fails for the lengths that are negative as an \<open>int\<close>.
\<close>

definition out_of_memory_env :: "sc_packet_merger environment" where
  "out_of_memory_env = sample_env\<lparr>av_new_packet_ok := (\<lambda>_ _. False)\<rparr>"

definition release_env :: "sc_packet_merger environment" where
  "release_env = sample_env\<lparr>NDEBUG := True\<rparr>"

definition int_size_env :: "sc_packet_merger environment" where
  "int_size_env = sample_env\<lparr>av_new_packet_ok := (\<lambda>_ len. len < 0x80000000)\<rparr>"

definition no_decoder_env :: "sc_packet_merger environment" where
  "no_decoder_env = sample_env\<lparr>avcodec_find_decoder := (\<lambda>_. None)\<rparr>"

definition h264_codec :: AVCodec where
  "h264_codec = \<lparr>codec_id = AV_CODEC_ID_H264, codec_type = AVMEDIA_TYPE_VIDEO\<rparr>"

definition opus_codec :: AVCodec where
  "opus_codec = \<lparr>codec_id = AV_CODEC_ID_OPUS, codec_type = AVMEDIA_TYPE_AUDIO\<rparr>"

definition on_wire :: "u8 list \<Rightarrow> world" where
  "on_wire bytes = \<lparr>sock = bytes, trace = []\<rparr>"

section \<open>The header\<close>

lemma sc_read32be_be32: "sc_read32be (be32 w @ rest) = w"
proof (rule bit_word_eqI)
  fix n :: nat
  assume "n < LENGTH(32)"
  then consider "n < 8" | "8 \<le> n" "n < 16" | "16 \<le> n" "n < 24" | "24 \<le> n" "n < 32"
    by fastforce
  then show "bit (sc_read32be (be32 w @ rest)) n = bit w n"
    by cases (auto simp: sc_read32be_def be32_def bit_simps)
qed

lemma length_be32: "length (be32 w) = 4"
  by (simp add: be32_def)

lemma length_be64: "length (be64 w) = 8"
  by (simp add: be64_def length_be32)

lemma sc_read64be_be64: "sc_read64be (be64 w @ rest) = w"
proof -
  have a: "sc_read32be (be64 w @ rest) = ucast (drop_bit 32 w)"
    by (simp add: be64_def sc_read32be_be32)
  have b: "sc_read32be (drop 4 (be64 w @ rest)) = ucast w"
    by (simp add: be64_def length_be32 sc_read32be_be32)
  show ?thesis
  proof (rule bit_word_eqI)
    fix n :: nat
    assume "n < LENGTH(64)"
    then consider "n < 32" | "32 \<le> n" "n < 64"
      by fastforce
    then show "bit (sc_read64be (be64 w @ rest)) n = bit w n"
      unfolding sc_read64be_def Let_def a b
      by cases (auto simp: bit_simps)
  qed
qed

lemma pts_mask: "SC_PACKET_PTS_MASK = mask 62"
  by (simp add: SC_PACKET_PTS_MASK_def SC_PACKET_FLAG_KEY_FRAME_def mask_eq_exp_minus_1)

lemma ts_bit:
  assumes "(ts :: u64) < 2 ^ 62" and "bit ts n"
  shows "n < 62"
proof -
  from assms(1) have "ts AND mask 62 = ts" by (simp add: less_mask_eq)
  then have "bit (ts AND mask 62) n" using assms(2) by simp
  then show ?thesis by (simp add: bit_simps)
qed

lemma flag_bit:
  "bit (if c then push_bit m 1 else (0::u64)) n \<longleftrightarrow> c \<and> n = m \<and> m < 64"
  by (auto simp: bit_simps)

lemma and_flag: "((w :: u64) AND push_bit m 1 \<noteq> 0) = bit w m"
  by (simp add: push_bit_of_1 and_exp_eq_0_iff_not_bit)

lemma bit_encode_pts_flags:
  "bit (encode_pts_flags ts c k) n \<longleftrightarrow> (c \<and> n = 63) \<or> (k \<and> n = 62) \<or> bit ts n"
  unfolding encode_pts_flags_def bit_or_iff flag_bit by simp

lemma encode_config_bit:
  assumes "(ts :: u64) < 2 ^ 62"
  shows "(encode_pts_flags ts c k AND SC_PACKET_FLAG_CONFIG \<noteq> 0) = c"
  unfolding SC_PACKET_FLAG_CONFIG_def and_flag bit_encode_pts_flags
  using ts_bit [OF assms, of 63] by auto

lemma encode_key_bit:
  assumes "(ts :: u64) < 2 ^ 62"
  shows "(encode_pts_flags ts c k AND SC_PACKET_FLAG_KEY_FRAME \<noteq> 0) = k"
  unfolding SC_PACKET_FLAG_KEY_FRAME_def and_flag bit_encode_pts_flags
  using ts_bit [OF assms, of 62] by auto

lemma encode_pts_bits:
  assumes "(ts :: u64) < 2 ^ 62"
  shows "encode_pts_flags ts c k AND SC_PACKET_PTS_MASK = ts"
proof (rule bit_word_eqI)
  fix n :: nat
  assume "n < LENGTH(64)"
  show "bit (encode_pts_flags ts c k AND SC_PACKET_PTS_MASK) n = bit ts n"
    unfolding pts_mask bit_and_iff bit_encode_pts_flags
    using ts_bit [OF assms, of n]
    by (auto simp: bit_simps)
qed

lemma set_pts_flags_encode:
  assumes "(ts :: u64) < 2 ^ 62"
  shows "set_pts_flags (encode_pts_flags ts c k) (blank_packet\<lparr>data := payload\<rparr>)
           = packet_of ts c k payload"
  using encode_config_bit [OF assms, of c k] encode_key_bit [OF assms, of c k]
  by (simp add: set_pts_flags_def Let_def encode_pts_bits [OF assms] blank_packet_def
        packet_of_def)

lemma ts_not_nopts: "(ts :: u64) < 2 ^ 62 \<Longrightarrow> ts \<noteq> AV_NOPTS_VALUE"
  by (auto simp: AV_NOPTS_VALUE_def)

text \<open>
  C2. For every timestamp below \<open>2 ^ 62\<close> and every pair of flags, the header decoder
  applied to the encoded \<open>pts_flags\<close> finds the config flag and the key-frame flag as they
  were encoded, and stores the encoded timestamp, or the "no timestamp" sentinel when the
  config flag is set. The sentinel is no timestamp below \<open>2 ^ 62\<close>, so the stored
  timestamp also tells whether the packet is a config packet.
\<close>

theorem header_round_trip:
  assumes "(ts :: u64) < 2 ^ 62"
  shows "(encode_pts_flags ts c k AND SC_PACKET_FLAG_CONFIG \<noteq> 0) = c
         \<and> (encode_pts_flags ts c k AND SC_PACKET_FLAG_KEY_FRAME \<noteq> 0) = k
         \<and> pts (set_pts_flags (encode_pts_flags ts c k) (blank_packet\<lparr>data := payload\<rparr>))
             = (if c then AV_NOPTS_VALUE else ts)
         \<and> (pts (set_pts_flags (encode_pts_flags ts c k) (blank_packet\<lparr>data := payload\<rparr>))
              = AV_NOPTS_VALUE) = c
         \<and> (flags (set_pts_flags (encode_pts_flags ts c k) (blank_packet\<lparr>data := payload\<rparr>))
              AND AV_PKT_FLAG_KEY \<noteq> 0) = k"
  using encode_config_bit [OF assms, of c k] encode_key_bit [OF assms, of c k]
    ts_not_nopts [OF assms]
  by (simp add: set_pts_flags_encode [OF assms] packet_of_def AV_PKT_FLAG_KEY_def)

theorem header_round_trip_witness:
  "(5 :: u64) < 2 ^ 62
   \<and> (encode_pts_flags 5 False True AND SC_PACKET_FLAG_CONFIG \<noteq> 0) = False
   \<and> (encode_pts_flags 5 False True AND SC_PACKET_FLAG_KEY_FRAME \<noteq> 0) = True
   \<and> pts (set_pts_flags (encode_pts_flags 5 False True) (blank_packet\<lparr>data := [7]\<rparr>)) = 5
   \<and> (pts (set_pts_flags (encode_pts_flags 5 True True) (blank_packet\<lparr>data := [7]\<rparr>))
        = AV_NOPTS_VALUE) = True"
proof -
  have h: "(5 :: u64) < 2 ^ 62" by simp
  show ?thesis
    using h header_round_trip [OF h, of False True "[7]"]
      header_round_trip [OF h, of True True "[7]"]
    by simp
qed

text \<open>
  C10. Every packet that \<open>sc_demuxer_recv_packet\<close> returns has its decoding timestamp
  equal to its presentation timestamp; where the header has the config flag, both are the
  "no timestamp" sentinel. The loop hands the merger and the sinks nothing but what this
  function returned.
\<close>

lemma sc_demuxer_recv_packet_Some:
  assumes "sc_demuxer_recv_packet env s = Return (Some packet) s'"
  shows "\<exists>payload. packet = set_pts_flags (sc_read64be (take SC_PACKET_HEADER_SIZE (sock s)))
                      (blank_packet\<lparr>data := payload\<rparr>)"
  using assms
  by (auto simp: sc_demuxer_recv_packet_def net_recv_all_def Let_def
           split: if_splits prod.splits)

theorem recv_packet_dts_eq_pts:
  assumes "sc_demuxer_recv_packet env s = Return (Some packet) s'"
  shows "dts packet = pts packet
         \<and> (sc_read64be (take SC_PACKET_HEADER_SIZE (sock s)) AND SC_PACKET_FLAG_CONFIG \<noteq> 0
              \<longrightarrow> pts packet = AV_NOPTS_VALUE \<and> dts packet = AV_NOPTS_VALUE)"
proof -
  from sc_demuxer_recv_packet_Some [OF assms] obtain payload
    where "packet = set_pts_flags (sc_read64be (take SC_PACKET_HEADER_SIZE (sock s)))
                      (blank_packet\<lparr>data := payload\<rparr>)"
    by blast
  then show ?thesis by (simp add: set_pts_flags_def Let_def)
qed

theorem recv_packet_dts_eq_pts_witness:
  "sc_demuxer_recv_packet sample_env (on_wire [0x80, 0, 0, 0, 0, 0, 0, 5, 0, 0, 0, 2, 7, 8, 9])
     = Return (Some \<lparr>pts = AV_NOPTS_VALUE, dts = AV_NOPTS_VALUE, flags = 0, data = [7, 8]\<rparr>)
         \<lparr>sock = [9], trace = []\<rparr>
   \<and> dts \<lparr>pts = AV_NOPTS_VALUE, dts = AV_NOPTS_VALUE, flags = 0, data = [7, 8]\<rparr>
       = pts \<lparr>pts = AV_NOPTS_VALUE, dts = AV_NOPTS_VALUE, flags = 0, data = [7, 8]\<rparr>
   \<and> sc_read64be (take SC_PACKET_HEADER_SIZE
                    (sock (on_wire [0x80, 0, 0, 0, 0, 0, 0, 5, 0, 0, 0, 2, 7, 8, 9])))
       AND SC_PACKET_FLAG_CONFIG \<noteq> 0"
proof -
  have h: "sc_demuxer_recv_packet sample_env
             (on_wire [0x80, 0, 0, 0, 0, 0, 0, 5, 0, 0, 0, 2, 7, 8, 9])
           = Return (Some \<lparr>pts = AV_NOPTS_VALUE, dts = AV_NOPTS_VALUE, flags = 0, data = [7, 8]\<rparr>)
               \<lparr>sock = [9], trace = []\<rparr>"
    by code_simp
  have c: "sc_read64be (take SC_PACKET_HEADER_SIZE
                    (sock (on_wire [0x80, 0, 0, 0, 0, 0, 0, 5, 0, 0, 0, 2, 7, 8, 9])))
       AND SC_PACKET_FLAG_CONFIG \<noteq> 0"
    by code_simp
  show ?thesis
    using h c recv_packet_dts_eq_pts [OF h] by simp
qed


section \<open>The sinks and the session\<close>


text \<open>The index of a sink in the array is its rank in the order of registration.\<close>

lemma sc_demuxer_add_sink_order:
  assumes "sc_demuxer_add_sink max_sinks d sink = Some d'"
  shows "sink_count d' = Suc (sink_count d)" and "sinks d' ! sink_count d = sink"
    and "i < sink_count d \<Longrightarrow> sinks d' ! i = sinks d ! i"
  using assms
  by (auto simp: sc_demuxer_add_sink_def sink_count_def nth_append split: if_splits)

lemma add_events_simps [simp]:
  "sock (add_events s es) = sock s"
  "trace (add_events s es) = trace s @ es"
  "add_events (add_events s es) es' = add_events s (es @ es')"
  "add_events s [] = s"
  by (simp_all add: add_events_def)

lemma closes_Suc: "closes (Suc count) = EvClose count # closes count"
  by (simp add: closes_def)

lemma sc_demuxer_close_first_sinks_trace:
  "sc_demuxer_close_first_sinks d count s = add_events s (closes count)"
proof (induction count arbitrary: s)
  case 0
  show ?case by (simp add: closes_def)
next
  case (Suc count)
  show ?case by (simp add: Suc.IH closes_Suc add_events_def)
qed

lemma pushes_step: "i < k \<Longrightarrow> EvPush i p True # pushes p (Suc i) k = pushes p i k"
  by (simp add: pushes_def upt_conv_Cons)

lemma opens_step: "i < k \<Longrightarrow> EvOpen i True # opens (Suc i) k = opens i k"
  by (simp add: opens_def upt_conv_Cons)

lemma push_packet_to_sinks_from_trace:
  assumes "i \<le> sink_count d"
  shows "\<exists>k. i \<le> k \<and> k \<le> sink_count d \<and>
           (push_packet_to_sinks_from d packet i s = (True, add_events s (pushes packet i k))
              \<and> k = sink_count d
            \<or> push_packet_to_sinks_from d packet i s
                 = (False, add_events s (pushes packet i k @ [EvPush k packet False]))
              \<and> k < sink_count d)"
  using assms
proof (induction d packet i s rule: push_packet_to_sinks_from.induct)
  case (1 d packet i s)
  show ?case
  proof (cases "i < sink_count d")
    case False
    with "1.prems" have "i = sink_count d" by simp
    then show ?thesis by (auto simp: pushes_def intro!: exI [of _ i])
  next
    case True
    show ?thesis
    proof (cases "sink_push (sinks d ! i) (trace s) packet")
      case False
      with True have "push_packet_to_sinks_from d packet i s
             = (False, add_events s (pushes packet i i @ [EvPush i packet False]))"
        by (simp add: Let_def pushes_def add_events_def)
      with True show ?thesis by (intro exI [of _ i]) simp
    next
      case ok: True
      let ?s = "s\<lparr>trace := trace s @ [EvPush i packet True]\<rparr>"
      have s: "?s = add_events s [EvPush i packet True]" by (simp add: add_events_def)
      from True ok
      have step: "push_packet_to_sinks_from d packet i s
                    = push_packet_to_sinks_from d packet (i + 1) ?s"
        by (simp add: Let_def)
      from True have "i + 1 \<le> sink_count d" by simp
      from "1.IH" [OF True refl refl refl _ this] ok
      obtain k where k: "i + 1 \<le> k" "k \<le> sink_count d"
        "push_packet_to_sinks_from d packet (i + 1) ?s
             = (True, add_events ?s (pushes packet (i + 1) k)) \<and> k = sink_count d
         \<or> push_packet_to_sinks_from d packet (i + 1) ?s
             = (False, add_events ?s (pushes packet (i + 1) k @ [EvPush k packet False]))
           \<and> k < sink_count d"
        by auto
      from k(1) have "i < k" by simp
      then have "EvPush i packet True # pushes packet (i + 1) k = pushes packet i k"
        using pushes_step by simp
      with k show ?thesis
        unfolding step s by (intro exI [of _ k]) auto
    qed
  qed
qed


lemma sc_demuxer_open_sinks_from_trace:
  assumes "i \<le> sink_count d"
  shows "\<exists>k. i \<le> k \<and> k \<le> sink_count d \<and>
           (sc_demuxer_open_sinks_from d codec i s = (True, add_events s (opens i k))
              \<and> k = sink_count d
            \<or> sc_demuxer_open_sinks_from d codec i s
                 = (False, add_events s (opens i k @ [EvOpen k False] @ closes k))
              \<and> k < sink_count d)"
  using assms
proof (induction d codec i s rule: sc_demuxer_open_sinks_from.induct)
  case (1 d codec i s)
  show ?case
  proof (cases "i < sink_count d")
    case False
    with "1.prems" have "i = sink_count d" by simp
    then show ?thesis by (auto simp: opens_def intro!: exI [of _ i])
  next
    case True
    show ?thesis
    proof (cases "sink_open (sinks d ! i) (trace s) codec")
      case False
      with True have "sc_demuxer_open_sinks_from d codec i s
             = (False, add_events s (opens i i @ [EvOpen i False] @ closes i))"
        by (simp add: Let_def opens_def sc_demuxer_close_first_sinks_trace add_events_def)
      with True show ?thesis by (intro exI [of _ i]) simp
    next
      case ok: True
      let ?s = "s\<lparr>trace := trace s @ [EvOpen i True]\<rparr>"
      have s: "?s = add_events s [EvOpen i True]" by (simp add: add_events_def)
      from True ok
      have step: "sc_demuxer_open_sinks_from d codec i s
                    = sc_demuxer_open_sinks_from d codec (i + 1) ?s"
        by (simp add: Let_def)
      from True have "i + 1 \<le> sink_count d" by simp
      from "1.IH" [OF True refl refl refl _ this] ok
      obtain k where k: "i + 1 \<le> k" "k \<le> sink_count d"
        "sc_demuxer_open_sinks_from d codec (i + 1) ?s
             = (True, add_events ?s (opens (i + 1) k)) \<and> k = sink_count d
         \<or> sc_demuxer_open_sinks_from d codec (i + 1) ?s
             = (False, add_events ?s (opens (i + 1) k @ [EvOpen k False] @ closes k))
           \<and> k < sink_count d"
        by auto
      from k(1) have "i < k" by simp
      then have "EvOpen i True # opens (i + 1) k = opens i k"
        using opens_step by simp
      with k show ?thesis
        unfolding step s by (intro exI [of _ k]) auto
    qed
  qed
qed


lemma push_ok_pushes: "e \<in> set (pushes p i k) \<Longrightarrow> push_ok e"
  by (auto simp: pushes_def push_ok_def)

lemma sc_demuxer_recv_packet_trace:
  "trace (final (sc_demuxer_recv_packet env s)) = trace s"
  by (simp add: sc_demuxer_recv_packet_def net_recv_all_def Let_def split: prod.splits)

lemma sc_demuxer_push_packet_trace:
  "\<exists>k. k \<le> sink_count d \<and>
     (sc_demuxer_push_packet d packet s = (True, add_events s (pushes packet 0 k))
       \<and> k = sink_count d
     \<or> sc_demuxer_push_packet d packet s
          = (False, add_events s (pushes packet 0 k @ [EvPush k packet False]))
       \<and> k < sink_count d)"
  using push_packet_to_sinks_from_trace [of 0 d packet s]
  by (auto simp: sc_demuxer_push_packet_def push_packet_to_sinks_def)

lemma demux_loop_Abort:
  "sc_demuxer_recv_packet env s = Abort w \<Longrightarrow> demux_loop env d merger s = Abort w"
  by (simp add: demux_loop.simps)

lemma demux_loop_None:
  "sc_demuxer_recv_packet env s = Return None s1 \<Longrightarrow> demux_loop env d merger s = Return True s1"
  by (simp add: demux_loop.simps)

lemma demux_loop_merge_failed:
  "sc_demuxer_recv_packet env s = Return (Some packet) s1
   \<Longrightarrow> merge_config_packet env merger packet = (False, merger', packet')
   \<Longrightarrow> demux_loop env d merger s = Return False s1"
  by (simp add: demux_loop.simps)

lemma demux_loop_push_failed:
  "sc_demuxer_recv_packet env s = Return (Some packet) s1
   \<Longrightarrow> merge_config_packet env merger packet = (True, merger', packet')
   \<Longrightarrow> sc_demuxer_push_packet d packet' s1 = (False, s2)
   \<Longrightarrow> demux_loop env d merger s = Return False s2"
  by (simp add: demux_loop.simps)

lemma demux_loop_step:
  "sc_demuxer_recv_packet env s = Return (Some packet) s1
   \<Longrightarrow> merge_config_packet env merger packet = (True, merger', packet')
   \<Longrightarrow> sc_demuxer_push_packet d packet' s1 = (True, s2)
   \<Longrightarrow> demux_loop env d merger s = demux_loop env d merger' s2"
  by (simp add: demux_loop.simps)

lemma loop_events_same:
  "trace (final r) = trace s \<Longrightarrow> loop_events d s r"
  unfolding loop_events_def by (intro exI [of _ "[]"]) simp

lemma demux_loop_trace: "loop_events d s (demux_loop env d merger s)"
proof (induction env d merger s rule: demux_loop.induct)
  case (1 env d merger s)
  show ?case
  proof (cases "sc_demuxer_recv_packet env s")
    case (Abort w)
    then show ?thesis
      using sc_demuxer_recv_packet_trace [of env s]
      by (simp add: demux_loop_Abort loop_events_same)
  next
    case (Return x s1)
    then have tr1: "trace s1 = trace s"
      using sc_demuxer_recv_packet_trace [of env s] by simp
    show ?thesis
    proof (cases x)
      case None
      with Return tr1 show ?thesis by (simp add: demux_loop_None loop_events_same)
    next
      case (Some packet)
      obtain ok merger' packet'
        where m: "merge_config_packet env merger packet = (ok, merger', packet')"
        by (cases "merge_config_packet env merger packet") auto
      show ?thesis
      proof (cases ok)
        case False
        with Return Some m tr1 show ?thesis
          by (simp add: demux_loop_merge_failed loop_events_same)
      next
        case True
        from sc_demuxer_push_packet_trace [of d packet' s1]
        consider
          (pushed) "sc_demuxer_push_packet d packet' s1
                      = (True, add_events s1 (pushes packet' 0 (sink_count d)))"
          | (failed) k where "k < sink_count d"
             "sc_demuxer_push_packet d packet' s1
                = (False, add_events s1 (pushes packet' 0 k @ [EvPush k packet' False]))"
          by blast
        then show ?thesis
        proof cases
          case failed
          from Return Some m True failed(2)
          have "demux_loop env d merger s
                  = Return False (add_events s1 (pushes packet' 0 k @ [EvPush k packet' False]))"
            by (simp add: demux_loop_push_failed)
          with failed(1) tr1 show ?thesis
            unfolding loop_events_def
            by (intro exI [of _ "pushes packet' 0 k"])
               (auto simp: push_ok_pushes intro!: exI [of _ "[]"])
        next
          case pushed
          let ?s2 = "add_events s1 (pushes packet' 0 (sink_count d))"
          from Return Some m True pushed
          have step: "demux_loop env d merger s = demux_loop env d merger' ?s2"
            by (simp add: demux_loop_step)
          have "loop_events d ?s2 (demux_loop env d merger' ?s2)"
            using "1.IH" [OF Return Some m [symmetric] refl _ pushed [symmetric]] True
            by simp
          then obtain P where P: "\<forall>e\<in>set P. push_ok e"
            "trace (final (demux_loop env d merger' ?s2)) = trace ?s2 @ P
             \<or> (\<exists>i p pre w. i < sink_count d \<and> P = pre @ pushes p 0 i
                   \<and> demux_loop env d merger' ?s2 = Return False w
                   \<and> trace w = trace ?s2 @ P @ [EvPush i p False])"
            unfolding loop_events_def by blast
          let ?P = "pushes packet' 0 (sink_count d) @ P"
          from P(1) have ok: "\<forall>e\<in>set ?P. push_ok e"
            by (auto simp: push_ok_pushes)
          from P(2) show ?thesis
          proof
            assume "trace (final (demux_loop env d merger' ?s2)) = trace ?s2 @ P"
            with ok tr1 show ?thesis
              unfolding loop_events_def step by (intro exI [of _ ?P]) simp
          next
            assume "\<exists>i p pre w. i < sink_count d \<and> P = pre @ pushes p 0 i
                   \<and> demux_loop env d merger' ?s2 = Return False w
                   \<and> trace w = trace ?s2 @ P @ [EvPush i p False]"
            then obtain i p pre w where f: "i < sink_count d" "P = pre @ pushes p 0 i"
              "demux_loop env d merger' ?s2 = Return False w"
              "trace w = trace ?s2 @ P @ [EvPush i p False]"
              by blast
            have "\<exists>i p pre w. i < sink_count d \<and> ?P = pre @ pushes p 0 i
                   \<and> demux_loop env d merger' ?s2 = Return False w
                   \<and> trace w = trace s @ ?P @ [EvPush i p False]"
              using f tr1
              by (intro exI [of _ i] exI [of _ p] exI [of _ w]
                    exI [of _ "pushes packet' 0 (sink_count d) @ pre"]) simp
            with ok show ?thesis
              unfolding loop_events_def step by blast
          qed
        qed
      qed
    qed
  qed
qed


lemma sc_demuxer_recv_codec_id_trace:
  "sc_demuxer_recv_codec_id s = (x, s1) \<Longrightarrow> trace s1 = trace s"
  by (auto simp: sc_demuxer_recv_codec_id_def net_recv_all_def split: if_splits)

lemma sc_demuxer_open_sinks_trace:
  obtains (opened) "sc_demuxer_open_sinks d codec s = (True, add_events s (opens 0 (sink_count d)))"
  | (failed) i where "i < sink_count d"
      "sc_demuxer_open_sinks d codec s
         = (False, add_events s (opens 0 i @ [EvOpen i False] @ closes i))"
  using sc_demuxer_open_sinks_from_trace [of 0 d codec s]
  unfolding sc_demuxer_open_sinks_def by auto

lemma sc_demuxer_close_sinks_trace:
  "sc_demuxer_close_sinks d s = add_events s (closes (sink_count d))"
  by (simp add: sc_demuxer_close_sinks_def sc_demuxer_close_first_sinks_trace)

lemma on_ended_trace: "on_ended eos s = Return 0 (add_events s [EvEnded eos])"
  by (simp add: on_ended_def add_events_def)

lemma run_demuxer_cases:
  obtains
    (ended) eos w where "run_demuxer env d s = Return 0 w" "trace w = trace s @ [EvEnded eos]"
  | (open_failed) i w where "i < sink_count d" "run_demuxer env d s = Return 0 w"
      "trace w = trace s @ opens 0 i @ [EvOpen i False] @ closes i @ [EvEnded False]"
  | (closed) P eos w where "\<forall>e\<in>set P. push_ok e" "run_demuxer env d s = Return 0 w"
      "trace w = trace s @ opens 0 (sink_count d) @ P @ closes (sink_count d) @ [EvEnded eos]"
  | (push_failed) pre i p w where "\<forall>e\<in>set pre. push_ok e" "i < sink_count d"
      "run_demuxer env d s = Return 0 w"
      "trace w = trace s @ opens 0 (sink_count d) @ pre @ pushes p 0 i @ [EvPush i p False]
                   @ closes (sink_count d) @ [EvEnded False]"
  | (aborted) P w where "\<forall>e\<in>set P. push_ok e" "run_demuxer env d s = Abort w"
      "trace w = trace s @ opens 0 (sink_count d) @ P"
proof -
  obtain x s1 where tag: "sc_demuxer_recv_codec_id s = (x, s1)"
    by (cases "sc_demuxer_recv_codec_id s") auto
  then have tr1: "trace s1 = trace s" by (rule sc_demuxer_recv_codec_id_trace)
  show ?thesis
  proof (cases x)
    case None
    with tag tr1 show ?thesis
      by (intro ended [of "add_events s1 [EvEnded True]" True])
         (simp_all add: run_demuxer_def on_ended_trace)
  next
    case (Some raw)
    let ?cid = "sc_demuxer_to_avcodec_id raw"
    show ?thesis
    proof (cases "?cid = AV_CODEC_ID_NONE \<or> avcodec_find_decoder env ?cid = None")
      case True
      with tag Some tr1 show ?thesis
        by (intro ended [of "add_events s1 [EvEnded False]" False])
           (auto simp: run_demuxer_def Let_def on_ended_trace)
    next
      case False
      then obtain codec where codec: "?cid \<noteq> AV_CODEC_ID_NONE"
        "avcodec_find_decoder env ?cid = Some codec"
        by auto
      let ?n = "sink_count d"
      let ?merger = "if codec_type codec = AVMEDIA_TYPE_VIDEO
                     then Some (merger_init env) else None"
      show ?thesis
      proof (cases rule: sc_demuxer_open_sinks_trace [of d codec s1])
        case (failed i)
        with tag Some codec tr1 show ?thesis
          by (intro open_failed [of i "add_events s1 (opens 0 i @ [EvOpen i False] @ closes i
                                          @ [EvEnded False])"])
             (simp_all add: run_demuxer_def on_ended_trace)
      next
        case opened
        let ?s2 = "add_events s1 (opens 0 ?n)"
        show ?thesis
        proof (cases "av_packet_alloc_ok env (trace ?s2)")
          case False
          with tag Some codec tr1 opened show ?thesis
            by (intro closed [of "[]" "add_events s1 (opens 0 ?n @ closes ?n @ [EvEnded False])"
                               False])
               (simp_all add: run_demuxer_def on_ended_trace sc_demuxer_close_sinks_trace)
        next
          case True
          from tag Some codec opened True
          have run: "run_demuxer env d s =
                       (case demux_loop env d ?merger ?s2 of
                          Abort w \<Rightarrow> Abort w
                        | Return eos s3 \<Rightarrow> on_ended eos (sc_demuxer_close_sinks d s3))"
            by (simp add: run_demuxer_def Let_def)
          from demux_loop_trace [of d ?s2 env ?merger]
          obtain P where P: "\<forall>e\<in>set P. push_ok e"
            "trace (final (demux_loop env d ?merger ?s2)) = trace ?s2 @ P
             \<or> (\<exists>i p pre w. i < sink_count d \<and> P = pre @ pushes p 0 i
                   \<and> demux_loop env d ?merger ?s2 = Return False w
                   \<and> trace w = trace ?s2 @ P @ [EvPush i p False])"
            unfolding loop_events_def by blast
          from P(2) show ?thesis
          proof
            assume t: "trace (final (demux_loop env d ?merger ?s2)) = trace ?s2 @ P"
            show ?thesis
            proof (cases "demux_loop env d ?merger ?s2")
              case (Abort w)
              with t tr1 P(1) run show ?thesis
                by (intro aborted [of P w]) simp_all
            next
              case (Return eos s3)
              with t tr1 P(1) run show ?thesis
                by (intro closed [of P "add_events s3 (closes ?n @ [EvEnded eos])" eos])
                   (simp_all add: on_ended_trace sc_demuxer_close_sinks_trace)
            qed
          next
            assume "\<exists>i p pre w. i < sink_count d \<and> P = pre @ pushes p 0 i
                   \<and> demux_loop env d ?merger ?s2 = Return False w
                   \<and> trace w = trace ?s2 @ P @ [EvPush i p False]"
            then obtain i p pre w where f: "i < sink_count d" "P = pre @ pushes p 0 i"
              "demux_loop env d ?merger ?s2 = Return False w"
              "trace w = trace ?s2 @ P @ [EvPush i p False]"
              by blast
            from f(2) P(1) have "\<forall>e\<in>set pre. push_ok e" by simp
            with f tr1 run show ?thesis
              by (intro push_failed [of pre i "add_events w (closes ?n @ [EvEnded False])" p])
                 (simp_all add: on_ended_trace sc_demuxer_close_sinks_trace)
          qed
        qed
      qed
    qed
  qed
qed

lemma session_events_eq:
  "trace (final (run_demuxer env d s)) = trace s @ es \<Longrightarrow> session_events env d s = es"
  by (simp add: session_events_def)

lemma not_push_ok [simp]:
  "\<not> push_ok (EvOpen i ok)" "\<not> push_ok (EvClose i)" "\<not> push_ok (EvEnded eos)"
  "push_ok (EvPush i p ok) = ok"
  by (simp_all add: push_ok_def)


lemma opens_events [simp]:
  "EvOpen i False \<notin> set (opens a b)" "EvPush i p ok \<notin> set (opens a b)"
  "EvClose i \<notin> set (opens a b)" "EvEnded eos \<notin> set (opens a b)"
  by (auto simp: opens_def)

lemma pushes_events [simp]:
  "EvOpen i ok \<notin> set (pushes q a b)" "EvPush i p False \<notin> set (pushes q a b)"
  "EvClose i \<notin> set (pushes q a b)" "EvEnded eos \<notin> set (pushes q a b)"
  by (auto simp: pushes_def)

lemma closes_events [simp]:
  "EvOpen i ok \<notin> set (closes k)" "EvPush i p ok \<notin> set (closes k)"
  "EvEnded eos \<notin> set (closes k)"
  by (auto simp: closes_def)

lemma push_ok_events:
  assumes "\<forall>e\<in>set P. push_ok e"
  shows "EvOpen i ok \<notin> set P" "EvPush i p False \<notin> set P" "EvClose i \<notin> set P"
    "EvEnded eos \<notin> set P"
  using assms by (auto simp: push_ok_def)


lemma middle_opens: "e \<in> set (opens a b) \<Longrightarrow> \<not> middle_event e"
  by (auto simp: opens_def middle_event_def)







text \<open>
  C4. If the open of sink \<open>i\<close> fails in a session, the events of the session are the
  successful opens of the sinks before \<open>i\<close> in registration order, the failed open, the
  closes of the sinks before \<open>i\<close> in reverse order, and \<open>on_ended\<close> with \<open>eos\<close> false:
  no sink from \<open>i\<close> on is opened or closed, and no packet is pushed to any sink.
\<close>

theorem open_failure_closes_opened:
  assumes "EvOpen i False \<in> set (session_events env d s)"
  shows "i < sink_count d
         \<and> session_events env d s = opens 0 i @ [EvOpen i False] @ closes i @ [EvEnded False]
         \<and> (\<forall>j p ok. EvPush j p ok \<notin> set (session_events env d s))
         \<and> (\<exists>w. run_demuxer env d s = Return 0 w)"
proof (cases rule: run_demuxer_cases [of env d s])
  case (ended eos w)
  then have "session_events env d s = [EvEnded eos]" by (simp add: session_events_eq)
  with assms show ?thesis by simp
next
  case (open_failed k w)
  then have e: "session_events env d s = opens 0 k @ [EvOpen k False] @ closes k @ [EvEnded False]"
    by (simp add: session_events_eq)
  with assms have "i = k" by simp
  with e open_failed show ?thesis by simp
next
  case (closed P eos w)
  then have "session_events env d s = opens 0 (sink_count d) @ P @ closes (sink_count d) @ [EvEnded eos]"
    by (simp add: session_events_eq)
  with assms push_ok_events [OF closed(1)] show ?thesis by simp
next
  case (push_failed pre k p w)
  then have "session_events env d s = opens 0 (sink_count d) @ pre @ pushes p 0 k @ [EvPush k p False]
                   @ closes (sink_count d) @ [EvEnded False]"
    by (simp add: session_events_eq)
  with assms push_ok_events [OF push_failed(1)] show ?thesis by simp
next
  case (aborted P w)
  then have "session_events env d s = opens 0 (sink_count d) @ P"
    by (simp add: session_events_eq)
  with assms push_ok_events [OF aborted(1)] show ?thesis by simp
qed

theorem open_failure_closes_opened_witness:
  "EvOpen 1 False \<in> set (session_events sample_env second_refuses (on_wire tag_h264))
   \<and> 1 < sink_count second_refuses
   \<and> session_events sample_env second_refuses (on_wire tag_h264)
       = opens 0 1 @ [EvOpen 1 False] @ closes 1 @ [EvEnded False]
   \<and> (\<forall>j p ok. EvPush j p ok
         \<notin> set (session_events sample_env second_refuses (on_wire tag_h264)))
   \<and> (\<exists>w. run_demuxer sample_env second_refuses (on_wire tag_h264) = Return 0 w)"
proof -
  have h: "EvOpen 1 False \<in> set (session_events sample_env second_refuses (on_wire tag_h264))"
    by code_simp
  show ?thesis by (rule conjI [OF h open_failure_closes_opened [OF h]])
qed

lemma push_packet_to_sinks_trace:
  "\<exists>k. k \<le> sink_count d \<and>
        push_packet_to_sinks d packet s
          = (k = sink_count d,
             add_events s (pushes packet 0 k @ (if k < sink_count d then [EvPush k packet False] else [])))"
proof -
  from push_packet_to_sinks_from_trace [of 0 d packet s]
  obtain k where k: "k \<le> sink_count d"
    "push_packet_to_sinks d packet s = (True, add_events s (pushes packet 0 k)) \<and> k = sink_count d
     \<or> push_packet_to_sinks d packet s
          = (False, add_events s (pushes packet 0 k @ [EvPush k packet False])) \<and> k < sink_count d"
    unfolding push_packet_to_sinks_def by blast
  from k(2) show ?thesis
  proof
    assume "push_packet_to_sinks d packet s = (True, add_events s (pushes packet 0 k)) \<and> k = sink_count d"
    then show ?thesis by (intro exI [of _ k]) simp
  next
    assume "push_packet_to_sinks d packet s
          = (False, add_events s (pushes packet 0 k @ [EvPush k packet False])) \<and> k < sink_count d"
    then show ?thesis by (intro exI [of _ k]) simp
  qed
qed

text \<open>
  C5. \<open>push_packet_to_sinks\<close> pushes the packet to the sinks in registration order and
  stops at the first sink \<open>k\<close> whose push fails. If the push of a packet to sink \<open>i\<close>
  fails in a session, that event follows the successful pushes of the packet to the sinks
  before \<open>i\<close>, and only the closes of all the sinks and \<open>on_ended\<close> with \<open>eos\<close>
  false come after it.
\<close>

theorem push_in_order_until_failure:
  "(\<exists>k. k \<le> sink_count d \<and>
        push_packet_to_sinks d packet s0
          = (k = sink_count d,
             add_events s0 (pushes packet 0 k
                              @ (if k < sink_count d then [EvPush k packet False] else []))))
   \<and> (EvPush i p False \<in> set (session_events env d s) \<longrightarrow>
        i < sink_count d
        \<and> (\<exists>pre. (\<forall>e\<in>set pre. push_ok e)
              \<and> session_events env d s
                  = opens 0 (sink_count d) @ pre @ pushes p 0 i @ [EvPush i p False]
                      @ closes (sink_count d) @ [EvEnded False])
        \<and> (\<exists>w. run_demuxer env d s = Return 0 w))"
proof (intro conjI impI)
  show "\<exists>k. k \<le> sink_count d \<and>
        push_packet_to_sinks d packet s0
          = (k = sink_count d,
             add_events s0 (pushes packet 0 k
                              @ (if k < sink_count d then [EvPush k packet False] else [])))"
    by (rule push_packet_to_sinks_trace)
next
  assume f: "EvPush i p False \<in> set (session_events env d s)"
  have "i < sink_count d
        \<and> (\<exists>pre. (\<forall>e\<in>set pre. push_ok e)
              \<and> session_events env d s
                  = opens 0 (sink_count d) @ pre @ pushes p 0 i @ [EvPush i p False]
                      @ closes (sink_count d) @ [EvEnded False])
        \<and> (\<exists>w. run_demuxer env d s = Return 0 w)"
  proof (cases rule: run_demuxer_cases [of env d s])
    case (ended eos w)
    then have "session_events env d s = [EvEnded eos]" by (simp add: session_events_eq)
    with f show ?thesis by simp
  next
    case (open_failed k w)
    then have "session_events env d s = opens 0 k @ [EvOpen k False] @ closes k @ [EvEnded False]"
      by (simp add: session_events_eq)
    with f show ?thesis by simp
  next
    case (closed P eos w)
    then have "session_events env d s
                 = opens 0 (sink_count d) @ P @ closes (sink_count d) @ [EvEnded eos]"
      by (simp add: session_events_eq)
    with f push_ok_events [OF closed(1)] show ?thesis by simp
  next
    case (push_failed pre k q w)
    then have e: "session_events env d s
                 = opens 0 (sink_count d) @ pre @ pushes q 0 k @ [EvPush k q False]
                     @ closes (sink_count d) @ [EvEnded False]"
      by (simp add: session_events_eq)
    with f push_ok_events [OF push_failed(1)] have "i = k \<and> p = q" by simp
    with e push_failed(1,2,3) show ?thesis by blast
  next
    case (aborted P w)
    then have "session_events env d s = opens 0 (sink_count d) @ P"
      by (simp add: session_events_eq)
    with f push_ok_events [OF aborted(1)] show ?thesis by simp
  qed
  then show "i < sink_count d" 
    and "\<exists>pre. (\<forall>e\<in>set pre. push_ok e)
              \<and> session_events env d s
                  = opens 0 (sink_count d) @ pre @ pushes p 0 i @ [EvPush i p False]
                      @ closes (sink_count d) @ [EvEnded False]"
    and "\<exists>w. run_demuxer env d s = Return 0 w"
    by blast+
qed

theorem push_in_order_until_failure_witness:
  "EvPush 1 (packet_of 5 False True [7, 8]) False
     \<in> set (session_events sample_env second_chokes
              (on_wire (tag_h264 @ wire_packet 5 False True [7, 8])))
   \<and> 1 < sink_count second_chokes
   \<and> (\<exists>pre. (\<forall>e\<in>set pre. push_ok e)
         \<and> session_events sample_env second_chokes
              (on_wire (tag_h264 @ wire_packet 5 False True [7, 8]))
             = opens 0 (sink_count second_chokes) @ pre
                 @ pushes (packet_of 5 False True [7, 8]) 0 1
                 @ [EvPush 1 (packet_of 5 False True [7, 8]) False]
                 @ closes (sink_count second_chokes) @ [EvEnded False])
   \<and> (\<exists>w. run_demuxer sample_env second_chokes
              (on_wire (tag_h264 @ wire_packet 5 False True [7, 8])) = Return 0 w)"
proof -
  have h: "EvPush 1 (packet_of 5 False True [7, 8]) False
     \<in> set (session_events sample_env second_chokes
              (on_wire (tag_h264 @ wire_packet 5 False True [7, 8])))"
    by code_simp
  show ?thesis
    by (rule conjI [OF h push_in_order_until_failure [THEN conjunct2, THEN mp, OF h]])
qed


section \<open>Reading the wire\<close>

lemma net_recv_all_enough:
  "len \<le> length (sock s) \<Longrightarrow>
     net_recv_all s len = (int len, take len (sock s), s\<lparr>sock := drop len (sock s)\<rparr>)"
  by (simp add: net_recv_all_def)

lemma net_recv_all_short:
  "length (sock s) < len \<Longrightarrow>
     net_recv_all s len = (int (length (sock s)), sock s, s\<lparr>sock := []\<rparr>)"
  by (simp add: net_recv_all_def)

lemma sc_demuxer_recv_codec_id_short:
  "length (sock s) < 4 \<Longrightarrow> sc_demuxer_recv_codec_id s = (None, s\<lparr>sock := []\<rparr>)"
  by (simp add: sc_demuxer_recv_codec_id_def net_recv_all_short)

lemma sc_demuxer_recv_codec_id_tag:
  "4 \<le> length (sock s) \<Longrightarrow>
     sc_demuxer_recv_codec_id s
       = (Some (sc_read32be (take 4 (sock s))), s\<lparr>sock := drop 4 (sock s)\<rparr>)"
  by (simp add: sc_demuxer_recv_codec_id_def net_recv_all_enough)

lemma sc_demuxer_recv_packet_short:
  "length (sock s) < SC_PACKET_HEADER_SIZE \<Longrightarrow>
     sc_demuxer_recv_packet env s = Return None (s\<lparr>sock := []\<rparr>)"
  by (simp add: sc_demuxer_recv_packet_def net_recv_all_short)

lemma sc_demuxer_recv_packet_zero:
  assumes "SC_PACKET_HEADER_SIZE \<le> length (sock s)"
    and "sc_read32be (drop 8 (take SC_PACKET_HEADER_SIZE (sock s))) = 0"
    and "\<not> NDEBUG env"
  shows "sc_demuxer_recv_packet env s
           = Abort (s\<lparr>sock := drop SC_PACKET_HEADER_SIZE (sock s)\<rparr>)"
  using assms by (simp add: sc_demuxer_recv_packet_def net_recv_all_enough Let_def)

lemma sc_demuxer_recv_packet_oom:
  assumes "SC_PACKET_HEADER_SIZE \<le> length (sock s)"
    and "sc_read32be (drop 8 (take SC_PACKET_HEADER_SIZE (sock s))) \<noteq> 0"
    and "\<not> av_new_packet_ok env (trace s)
             (sc_read32be (drop 8 (take SC_PACKET_HEADER_SIZE (sock s))))"
  shows "sc_demuxer_recv_packet env s
           = Return None (s\<lparr>sock := drop SC_PACKET_HEADER_SIZE (sock s)\<rparr>)"
  using assms by (simp add: sc_demuxer_recv_packet_def net_recv_all_enough Let_def)

lemma length_word: 
  assumes "n < 2 ^ 32"
  shows "unat (of_nat n :: u32) = n" 
  using assms by (simp add: unat_of_nat)

lemma length_word_nonzero:
  assumes "0 < n" "n < 2 ^ 32"
  shows "(of_nat n :: u32) \<noteq> 0"
proof
  assume "(of_nat n :: u32) = 0"
  then have "unat (of_nat n :: u32) = 0" by simp
  with length_word [OF assms(2)] assms(1) show False by simp
qed

lemma sc_demuxer_recv_packet_wire:
  assumes payload: "payload \<noteq> []" "length payload < 2 ^ 32"
    and ts: "(ts :: u64) < 2 ^ 62"
    and alloc: "av_new_packet_ok env (trace s) (of_nat (length payload))"
    and sock: "sock s = wire_packet ts c k payload @ rest"
  shows "sc_demuxer_recv_packet env s
           = Return (Some (packet_of ts c k payload)) (s\<lparr>sock := rest\<rparr>)"
proof -
  let ?e = "encode_pts_flags ts c k"
  let ?len = "of_nat (length payload) :: u32"
  let ?header = "be64 ?e @ be32 ?len"
  let ?s1 = "s\<lparr>sock := payload @ rest\<rparr>"
  have hl: "length ?header = SC_PACKET_HEADER_SIZE"
    by (simp add: length_be32 length_be64 SC_PACKET_HEADER_SIZE_def)
  from sock have s: "sock s = ?header @ payload @ rest"
    by (simp add: wire_packet_def)
  have h: "net_recv_all s SC_PACKET_HEADER_SIZE = (int SC_PACKET_HEADER_SIZE, ?header, ?s1)"
    using hl by (simp add: net_recv_all_def s del: append_assoc)
  have e: "sc_read64be ?header = ?e" by (rule sc_read64be_be64)
  have "sc_read32be (drop 8 ?header) = sc_read32be (be32 ?len @ [])"
    by (simp add: length_be64)
  then have l: "sc_read32be (drop 8 ?header) = ?len" by (simp only: sc_read32be_be32)
  from payload have n0: "?len \<noteq> 0" by (intro length_word_nonzero) simp_all
  from payload have u: "unat ?len = length payload" by (intro length_word)
  have p: "net_recv_all ?s1 (length payload) = (int (length payload), payload, s\<lparr>sock := rest\<rparr>)"
    by (simp add: net_recv_all_def)
  have w: "\<not> (word_of_int (int (length payload)) :: u32) < ?len" by simp
  from alloc have a: "av_new_packet_ok env (trace ?s1) ?len" by simp
  show ?thesis
    unfolding sc_demuxer_recv_packet_def h
    using e l n0 u p w a by (simp add: Let_def set_pts_flags_encode [OF ts])
qed

lemma push_packet_to_sinks_from_accepting:
  assumes "sinks d = replicate n accepting_sink" and "i \<le> n"
  shows "push_packet_to_sinks_from d packet i s = (True, add_events s (pushes packet i n))"
  using assms
proof (induction d packet i s rule: push_packet_to_sinks_from.induct)
  case (1 d packet i s)
  from "1.prems" have n: "sink_count d = n" by (simp add: sink_count_def)
  show ?case
  proof (cases "i < n")
    case False
    with "1.prems" n show ?thesis by (simp add: pushes_def)
  next
    case True
    with "1.prems" have ok: "sink_push (sinks d ! i) (trace s) packet"
      by (simp add: accepting_sink_def)
    let ?s = "s\<lparr>trace := trace s @ [EvPush i packet True]\<rparr>"
    have s: "?s = add_events s [EvPush i packet True]" by (simp add: add_events_def)
    from True n ok have "push_packet_to_sinks_from d packet i s
                           = push_packet_to_sinks_from d packet (i + 1) ?s"
      by (simp add: Let_def)
    also from True n "1.prems" ok
    have "\<dots> = (True, add_events ?s (pushes packet (i + 1) n))"
      by (intro "1.IH" [of "sinks d ! i" True ?s]) simp_all
    also have "add_events ?s (pushes packet (i + 1) n) = add_events s (pushes packet i n)"
      using True pushes_step [of i n packet] unfolding s by simp
    finally show ?thesis .
  qed
qed

lemma sc_demuxer_push_packet_accepting:
  assumes "sinks d = replicate n accepting_sink"
  shows "sc_demuxer_push_packet d packet s = (True, add_events s (pushes packet 0 n))"
  using push_packet_to_sinks_from_accepting [OF assms, of 0 packet s]
  by (simp add: sc_demuxer_push_packet_def push_packet_to_sinks_def)

lemma sc_demuxer_open_sinks_from_accepting:
  assumes "sinks d = replicate n accepting_sink" and "i \<le> n"
  shows "sc_demuxer_open_sinks_from d codec i s = (True, add_events s (opens i n))"
  using assms
proof (induction d codec i s rule: sc_demuxer_open_sinks_from.induct)
  case (1 d codec i s)
  from "1.prems" have n: "sink_count d = n" by (simp add: sink_count_def)
  show ?case
  proof (cases "i < n")
    case False
    with "1.prems" n show ?thesis by (simp add: opens_def)
  next
    case True
    with "1.prems" have ok: "sink_open (sinks d ! i) (trace s) codec"
      by (simp add: accepting_sink_def)
    let ?s = "s\<lparr>trace := trace s @ [EvOpen i True]\<rparr>"
    have s: "?s = add_events s [EvOpen i True]" by (simp add: add_events_def)
    from True n ok have "sc_demuxer_open_sinks_from d codec i s
                           = sc_demuxer_open_sinks_from d codec (i + 1) ?s"
      by (simp add: Let_def)
    also from True n "1.prems" ok
    have "\<dots> = (True, add_events ?s (opens (i + 1) n))"
      by (intro "1.IH" [of "sinks d ! i" True ?s]) simp_all
    also have "add_events ?s (opens (i + 1) n) = add_events s (opens i n)"
      using True opens_step [of i n] unfolding s by simp
    finally show ?thesis .
  qed
qed

lemma sc_demuxer_open_sinks_accepting:
  assumes "sinks d = replicate n accepting_sink"
  shows "sc_demuxer_open_sinks d codec s = (True, add_events s (opens 0 n))"
  using sc_demuxer_open_sinks_from_accepting [OF assms, of 0 codec s]
  by (simp add: sc_demuxer_open_sinks_def)

lemma run_demuxer_reading:
  assumes "4 \<le> length (sock s)"
    and "sc_demuxer_to_avcodec_id (sc_read32be (take 4 (sock s))) \<noteq> AV_CODEC_ID_NONE"
    and "avcodec_find_decoder env (sc_demuxer_to_avcodec_id (sc_read32be (take 4 (sock s))))
           = Some codec"
    and "sc_demuxer_open_sinks d codec (s\<lparr>sock := drop 4 (sock s)\<rparr>) = (True, s2)"
    and "av_packet_alloc_ok env (trace s2)"
  shows "run_demuxer env d s =
           (case demux_loop env d (if codec_type codec = AVMEDIA_TYPE_VIDEO
                                   then Some (merger_init env) else None) s2 of
              Abort w \<Rightarrow> Abort w
            | Return eos s3 \<Rightarrow> on_ended eos (sc_demuxer_close_sinks d s3))"
  using assms by (simp add: run_demuxer_def sc_demuxer_recv_codec_id_tag Let_def)

lemma run_demuxer_tag_eos:
  assumes "length (sock s) < 4"
  shows "run_demuxer env d s = Return 0 (add_events (s\<lparr>sock := []\<rparr>) [EvEnded True])"
  using assms by (simp add: run_demuxer_def sc_demuxer_recv_codec_id_short on_ended_trace)

lemma run_demuxer_unknown_tag:
  assumes "4 \<le> length (sock s)"
    and "sc_demuxer_to_avcodec_id (sc_read32be (take 4 (sock s))) = AV_CODEC_ID_NONE"
  shows "run_demuxer env d s
           = Return 0 (add_events (s\<lparr>sock := drop 4 (sock s)\<rparr>) [EvEnded False])"
  using assms by (simp add: run_demuxer_def sc_demuxer_recv_codec_id_tag on_ended_trace)

lemma run_demuxer_no_decoder:
  assumes "4 \<le> length (sock s)"
    and "avcodec_find_decoder env (sc_demuxer_to_avcodec_id (sc_read32be (take 4 (sock s))))
           = None"
  shows "run_demuxer env d s
           = Return 0 (add_events (s\<lparr>sock := drop 4 (sock s)\<rparr>) [EvEnded False])"
  using assms by (simp add: run_demuxer_def sc_demuxer_recv_codec_id_tag on_ended_trace Let_def)

lemma unknown_tag:
  "raw \<notin> {SC_CODEC_ID_H264, SC_CODEC_ID_H265, SC_CODEC_ID_AV1, SC_CODEC_ID_OPUS}
     \<longleftrightarrow> sc_demuxer_to_avcodec_id raw = AV_CODEC_ID_NONE"
  by (simp add: sc_demuxer_to_avcodec_id_def)

lemma demux_loop_eos:
  "length (sock s) < SC_PACKET_HEADER_SIZE \<Longrightarrow>
     demux_loop env d merger s = Return True (s\<lparr>sock := []\<rparr>)"
  by (simp add: demux_loop_None sc_demuxer_recv_packet_short)

lemma sc_demuxer_open_sinks_True:
  assumes "sc_demuxer_open_sinks d codec s = (True, s2)"
  shows "s2 = add_events s (opens 0 (sink_count d))"
  using assms by (cases rule: sc_demuxer_open_sinks_trace [of d codec s]) simp_all

text \<open>
  C3. The callback receives \<open>eos\<close> true when the socket delivers fewer than the 4 bytes
  of the codec tag. It receives \<open>eos\<close> false, and no sink is opened, when the tag is none
  of h264, h265, av1 and opus, and when \<open>avcodec_find_decoder\<close> finds no decoder for the
  codec of the tag. It receives \<open>eos\<close> true, after the closes of the sinks, when the tag is
  valid, the sinks were opened, the packet was allocated and the socket then delivers fewer
  than the 12 bytes of a header.
\<close>

theorem eos_classification:
  "(length (sock s) < 4 \<longrightarrow> session_events env d s = [EvEnded True])
   \<and> (4 \<le> length (sock s)
        \<and> sc_read32be (take 4 (sock s))
            \<notin> {SC_CODEC_ID_H264, SC_CODEC_ID_H265, SC_CODEC_ID_AV1, SC_CODEC_ID_OPUS}
      \<longrightarrow> session_events env d s = [EvEnded False])
   \<and> (4 \<le> length (sock s)
        \<and> avcodec_find_decoder env (sc_demuxer_to_avcodec_id (sc_read32be (take 4 (sock s))))
            = None
      \<longrightarrow> session_events env d s = [EvEnded False])
   \<and> (4 \<le> length (sock s) \<and> length (sock s) < 4 + SC_PACKET_HEADER_SIZE
        \<and> sc_read32be (take 4 (sock s))
            \<in> {SC_CODEC_ID_H264, SC_CODEC_ID_H265, SC_CODEC_ID_AV1, SC_CODEC_ID_OPUS}
        \<and> avcodec_find_decoder env (sc_demuxer_to_avcodec_id (sc_read32be (take 4 (sock s))))
            = Some codec
        \<and> sc_demuxer_open_sinks d codec (s\<lparr>sock := drop 4 (sock s)\<rparr>) = (True, s2)
        \<and> av_packet_alloc_ok env (trace s2)
      \<longrightarrow> session_events env d s
            = opens 0 (sink_count d) @ closes (sink_count d) @ [EvEnded True])"
proof (intro conjI impI)
  assume "length (sock s) < 4"
  then show "session_events env d s = [EvEnded True]"
    by (simp add: session_events_def run_demuxer_tag_eos)
next
  assume "4 \<le> length (sock s)
        \<and> sc_read32be (take 4 (sock s))
            \<notin> {SC_CODEC_ID_H264, SC_CODEC_ID_H265, SC_CODEC_ID_AV1, SC_CODEC_ID_OPUS}"
  then have "4 \<le> length (sock s)"
    "sc_demuxer_to_avcodec_id (sc_read32be (take 4 (sock s))) = AV_CODEC_ID_NONE"
    using unknown_tag by blast+
  then show "session_events env d s = [EvEnded False]"
    by (simp add: session_events_def run_demuxer_unknown_tag)
next
  assume "4 \<le> length (sock s)
        \<and> avcodec_find_decoder env (sc_demuxer_to_avcodec_id (sc_read32be (take 4 (sock s))))
            = None"
  then show "session_events env d s = [EvEnded False]"
    by (simp add: session_events_def run_demuxer_no_decoder)
next
  assume a: "4 \<le> length (sock s) \<and> length (sock s) < 4 + SC_PACKET_HEADER_SIZE
        \<and> sc_read32be (take 4 (sock s))
            \<in> {SC_CODEC_ID_H264, SC_CODEC_ID_H265, SC_CODEC_ID_AV1, SC_CODEC_ID_OPUS}
        \<and> avcodec_find_decoder env (sc_demuxer_to_avcodec_id (sc_read32be (take 4 (sock s))))
            = Some codec
        \<and> sc_demuxer_open_sinks d codec (s\<lparr>sock := drop 4 (sock s)\<rparr>) = (True, s2)
        \<and> av_packet_alloc_ok env (trace s2)"
  then have tag: "sc_demuxer_to_avcodec_id (sc_read32be (take 4 (sock s))) \<noteq> AV_CODEC_ID_NONE"
    using unknown_tag by blast
  from a have s2: "s2 = add_events (s\<lparr>sock := drop 4 (sock s)\<rparr>) (opens 0 (sink_count d))"
    by (intro sc_demuxer_open_sinks_True [of d codec]) simp
  from a have "length (sock s2) < SC_PACKET_HEADER_SIZE" unfolding s2 by auto
  then have "demux_loop env d (if codec_type codec = AVMEDIA_TYPE_VIDEO
                               then Some (merger_init env) else None) s2
               = Return True (s2\<lparr>sock := []\<rparr>)"
    by (rule demux_loop_eos)
  with a tag have "run_demuxer env d s
                     = on_ended True (sc_demuxer_close_sinks d (s2\<lparr>sock := []\<rparr>))"
    by (simp add: run_demuxer_reading [of s env codec d s2])
  then show "session_events env d s
            = opens 0 (sink_count d) @ closes (sink_count d) @ [EvEnded True]"
    by (simp add: session_events_def on_ended_trace sc_demuxer_close_sinks_trace s2)
qed

theorem eos_classification_witness:
  "(length (sock (on_wire [0x68])) < 4
      \<and> session_events sample_env one_sink (on_wire [0x68]) = [EvEnded True])
   \<and> ((4 \<le> length (sock (on_wire [0x6d, 0x70, 0x34, 0x76]))
        \<and> sc_read32be (take 4 (sock (on_wire [0x6d, 0x70, 0x34, 0x76])))
            \<notin> {SC_CODEC_ID_H264, SC_CODEC_ID_H265, SC_CODEC_ID_AV1, SC_CODEC_ID_OPUS})
      \<and> session_events sample_env one_sink (on_wire [0x6d, 0x70, 0x34, 0x76]) = [EvEnded False])
   \<and> ((4 \<le> length (sock (on_wire tag_h264))
        \<and> avcodec_find_decoder no_decoder_env
             (sc_demuxer_to_avcodec_id (sc_read32be (take 4 (sock (on_wire tag_h264))))) = None)
      \<and> session_events no_decoder_env one_sink (on_wire tag_h264) = [EvEnded False])
   \<and> ((4 \<le> length (sock (on_wire (tag_h264 @ [0, 0, 0])))
        \<and> length (sock (on_wire (tag_h264 @ [0, 0, 0]))) < 4 + SC_PACKET_HEADER_SIZE
        \<and> sc_read32be (take 4 (sock (on_wire (tag_h264 @ [0, 0, 0]))))
            \<in> {SC_CODEC_ID_H264, SC_CODEC_ID_H265, SC_CODEC_ID_AV1, SC_CODEC_ID_OPUS}
        \<and> avcodec_find_decoder sample_env
             (sc_demuxer_to_avcodec_id (sc_read32be (take 4 (sock (on_wire (tag_h264 @ [0, 0, 0]))))))
            = Some h264_codec
        \<and> sc_demuxer_open_sinks one_sink h264_codec
             ((on_wire (tag_h264 @ [0, 0, 0]))\<lparr>sock := drop 4 (sock (on_wire (tag_h264 @ [0, 0, 0])))\<rparr>)
            = (True, \<lparr>sock = [0, 0, 0], trace = [EvOpen 0 True]\<rparr>)
        \<and> av_packet_alloc_ok sample_env (trace \<lparr>sock = [0, 0, 0], trace = [EvOpen 0 True]\<rparr>))
      \<and> session_events sample_env one_sink (on_wire (tag_h264 @ [0, 0, 0]))
          = opens 0 (sink_count one_sink) @ closes (sink_count one_sink) @ [EvEnded True])"
proof -
  have a: "length (sock (on_wire [0x68])) < 4"
    by code_simp
  have b: "4 \<le> length (sock (on_wire [0x6d, 0x70, 0x34, 0x76]))
        \<and> sc_read32be (take 4 (sock (on_wire [0x6d, 0x70, 0x34, 0x76])))
            \<notin> {SC_CODEC_ID_H264, SC_CODEC_ID_H265, SC_CODEC_ID_AV1, SC_CODEC_ID_OPUS}"
    by code_simp
  have c: "4 \<le> length (sock (on_wire tag_h264))
        \<and> avcodec_find_decoder no_decoder_env
             (sc_demuxer_to_avcodec_id (sc_read32be (take 4 (sock (on_wire tag_h264))))) = None"
    by code_simp
  have d: "4 \<le> length (sock (on_wire (tag_h264 @ [0, 0, 0])))
        \<and> length (sock (on_wire (tag_h264 @ [0, 0, 0]))) < 4 + SC_PACKET_HEADER_SIZE
        \<and> sc_read32be (take 4 (sock (on_wire (tag_h264 @ [0, 0, 0]))))
            \<in> {SC_CODEC_ID_H264, SC_CODEC_ID_H265, SC_CODEC_ID_AV1, SC_CODEC_ID_OPUS}
        \<and> avcodec_find_decoder sample_env
             (sc_demuxer_to_avcodec_id (sc_read32be (take 4 (sock (on_wire (tag_h264 @ [0, 0, 0]))))))
            = Some h264_codec
        \<and> sc_demuxer_open_sinks one_sink h264_codec
             ((on_wire (tag_h264 @ [0, 0, 0]))\<lparr>sock := drop 4 (sock (on_wire (tag_h264 @ [0, 0, 0])))\<rparr>)
            = (True, \<lparr>sock = [0, 0, 0], trace = [EvOpen 0 True]\<rparr>)
        \<and> av_packet_alloc_ok sample_env (trace \<lparr>sock = [0, 0, 0], trace = [EvOpen 0 True]\<rparr>)"
    by code_simp
  note t = eos_classification [THEN conjunct1, THEN mp, OF a]
    eos_classification [THEN conjunct2, THEN conjunct1, THEN mp, OF b]
    eos_classification [THEN conjunct2, THEN conjunct2, THEN conjunct1, THEN mp, OF c]
    eos_classification [THEN conjunct2, THEN conjunct2, THEN conjunct2, THEN mp, OF d]
  show ?thesis
    by (intro conjI a b c d t)
qed

text \<open>
  C6. A header whose length field is 0 is not rejected: \<open>assert(len)\<close> is the only test
  of the length. In a build with \<open>NDEBUG\<close> the session builds a packet with no payload
  and pushes it to the sink; in a build without it the process aborts in
  \<open>sc_demuxer_recv_packet\<close>.
\<close>

theorem zero_length_packet_is_pushed:
  "run_demuxer release_env one_sink (on_wire (tag_h264 @ wire_packet 5 False True []))
     = Return 0
         \<lparr>sock = [],
          trace = [EvOpen 0 True, EvPush 0 (packet_of 5 False True []) True, EvClose 0,
                   EvEnded True]\<rparr>
   \<and> sc_demuxer_recv_packet sample_env (on_wire (wire_packet 5 False True []))
     = Abort \<lparr>sock = [], trace = []\<rparr>"
  by code_simp

text \<open>
  C7. A session in which \<open>av_new_packet\<close> fails for the first packet, for want of memory
  or because the header announces \<open>0xFFFFFFFF\<close> bytes: the sink is closed and
  \<open>on_ended\<close> is called with \<open>eos\<close> true, as for a peer that closed the socket.
\<close>

theorem out_of_memory_reported_as_eos:
  "run_demuxer out_of_memory_env one_sink (on_wire (tag_h264 @ wire_packet 5 False True [7, 8]))
     = Return 0 \<lparr>sock = [7, 8], trace = [EvOpen 0 True, EvClose 0, EvEnded True]\<rparr>
   \<and> run_demuxer int_size_env one_sink
         (on_wire (tag_h264 @ be64 (encode_pts_flags 5 False True) @ be32 0xFFFFFFFF @ [7, 8]))
     = Return 0 \<lparr>sock = [7, 8], trace = [EvOpen 0 True, EvClose 0, EvEnded True]\<rparr>"
  by code_simp

section \<open>Sessions over well-formed wire packets\<close>

lemma frame_simps:
  "wire_frame (ts, c, k, payload) = wire_packet ts c k payload"
  "frame_packet (ts, c, k, payload) = packet_of ts c k payload"
  "well_formed (ts, c, k, payload) \<longleftrightarrow> ts < 2 ^ 62 \<and> payload \<noteq> [] \<and> length payload < 2 ^ 32"
  by (simp_all add: wire_frame_def frame_packet_def well_formed_def)

lemma demux_loop_wire:
  assumes "av_new_packet_ok env = (\<lambda>_ _. True)"
    and "sinks d = replicate n accepting_sink"
    and "(ts :: u64) < 2 ^ 62" "payload \<noteq> []" "length payload < 2 ^ 32"
    and "sock s = wire_packet ts c k payload @ rest"
    and "merge_config_packet env merger (packet_of ts c k payload) = (True, merger', packet')"
  shows "demux_loop env d merger s
           = demux_loop env d merger' (add_events (s\<lparr>sock := rest\<rparr>) (pushes packet' 0 n))"
proof -
  from assms have recv: "sc_demuxer_recv_packet env s
                     = Return (Some (packet_of ts c k payload)) (s\<lparr>sock := rest\<rparr>)"
    by (intro sc_demuxer_recv_packet_wire) simp_all
  have push: "sc_demuxer_push_packet d packet' (s\<lparr>sock := rest\<rparr>)
                = (True, add_events (s\<lparr>sock := rest\<rparr>) (pushes packet' 0 n))"
    using assms(2) by (rule sc_demuxer_push_packet_accepting)
  show ?thesis by (rule demux_loop_step [OF recv assms(7) push])
qed

lemma demux_loop_frames:
  assumes "av_new_packet_ok env = (\<lambda>_ _. True)"
    and "sinks d = replicate n accepting_sink"
    and "\<forall>f\<in>set fs. well_formed f"
    and "length rest < SC_PACKET_HEADER_SIZE"
    and "sock s = concat (map wire_frame fs) @ rest"
  shows "demux_loop env d None s
           = Return True
               (add_events (s\<lparr>sock := []\<rparr>)
                  (concat (map (\<lambda>f. pushes (frame_packet f) 0 n) fs)))"
  using assms(3,5)
proof (induction fs arbitrary: s)
  case Nil
  with assms(4) show ?case by (simp add: demux_loop_eos)
next
  case (Cons f fs)
  obtain ts c k payload where f: "f = (ts, c, k, payload)" by (cases f) auto
  let ?s1 = "add_events (s\<lparr>sock := concat (map wire_frame fs) @ rest\<rparr>)
               (pushes (frame_packet f) 0 n)"
  from Cons.prems f have wf: "ts < 2 ^ 62" "payload \<noteq> []" "length payload < 2 ^ 32"
    by (simp_all add: frame_simps)
  from Cons.prems f
  have "sock s = wire_packet ts c k payload @ concat (map wire_frame fs) @ rest"
    by (simp add: frame_simps)
  with assms(1,2) wf
  have "demux_loop env d None s = demux_loop env d None ?s1"
    unfolding f frame_simps
    by (intro demux_loop_wire) (simp_all add: merge_config_packet_def)
  also from Cons.prems
  have "\<dots> = Return True
                (add_events (?s1\<lparr>sock := []\<rparr>)
                   (concat (map (\<lambda>f. pushes (frame_packet f) 0 n) fs)))"
    by (intro Cons.IH) simp_all
  finally show ?case by (simp add: add_events_def)
qed

lemma sc_demuxer_recv_packet_merger:
  "sc_demuxer_recv_packet (env\<lparr>merger_init := mi, merger_merge := mm\<rparr>) s
     = sc_demuxer_recv_packet env s"
proof -
  have "NDEBUG (env\<lparr>merger_init := mi, merger_merge := mm\<rparr>) = NDEBUG env"
    and "av_new_packet_ok (env\<lparr>merger_init := mi, merger_merge := mm\<rparr>)
           = av_new_packet_ok env"
    by simp_all
  then show ?thesis
    unfolding sc_demuxer_recv_packet_def by (simp only:)
qed

lemma demux_loop_no_merger:
  "merger = None \<Longrightarrow>
     demux_loop (env\<lparr>merger_init := mi, merger_merge := mm\<rparr>) d merger s
       = demux_loop env d merger s"
proof (induction env d merger s rule: demux_loop.induct)
  case (1 env d merger s)
  let ?env = "env\<lparr>merger_init := mi, merger_merge := mm\<rparr>"
  show ?case
  proof (cases "sc_demuxer_recv_packet env s")
    case (Abort w)
    then show ?thesis by (simp add: demux_loop_Abort sc_demuxer_recv_packet_merger)
  next
    case (Return x s1)
    show ?thesis
    proof (cases x)
      case None
      with Return show ?thesis by (simp add: demux_loop_None sc_demuxer_recv_packet_merger)
    next
      case (Some packet)
      from "1.prems" have m: "merge_config_packet env merger packet = (True, None, packet)"
        "merge_config_packet ?env merger packet = (True, None, packet)"
        by (simp_all add: merge_config_packet_def)
      obtain ok s2 where p: "sc_demuxer_push_packet d packet s1 = (ok, s2)"
        by (cases "sc_demuxer_push_packet d packet s1") auto
      show ?thesis
      proof (cases ok)
        case False
        with Return Some m p show ?thesis
          by (simp add: demux_loop_push_failed sc_demuxer_recv_packet_merger)
      next
        case True
        with Return Some m p
        have "demux_loop ?env d merger s = demux_loop ?env d None s2"
          and "demux_loop env d merger s = demux_loop env d None s2"
          by (simp_all add: demux_loop_step sc_demuxer_recv_packet_merger)
        moreover have "demux_loop ?env d None s2 = demux_loop env d None s2"
          using "1.IH" [OF Return Some m(1) [symmetric] refl _ p [symmetric]] True
          by simp
        ultimately show ?thesis by simp
      qed
    qed
  qed
qed

lemma run_demuxer_stream:
  assumes "sc_demuxer_to_avcodec_id tag \<noteq> AV_CODEC_ID_NONE"
    and "avcodec_find_decoder env (sc_demuxer_to_avcodec_id tag) = Some codec"
    and "av_packet_alloc_ok env = (\<lambda>_. True)"
    and "sinks d = replicate n accepting_sink"
  shows "run_demuxer env d \<lparr>sock = be32 tag @ stream, trace = tr\<rparr> =
           (case demux_loop env d (if codec_type codec = AVMEDIA_TYPE_VIDEO
                                   then Some (merger_init env) else None)
                   \<lparr>sock = stream, trace = tr @ opens 0 n\<rparr> of
              Abort w \<Rightarrow> Abort w
            | Return eos s3 \<Rightarrow> on_ended eos (sc_demuxer_close_sinks d s3))"
proof -
  let ?s = "\<lparr>sock = be32 tag @ stream, trace = tr\<rparr>"
  have t: "sc_read32be (take 4 (sock ?s)) = tag"
    using sc_read32be_be32 [of tag "[]"] by (simp add: length_be32)
  have "sc_demuxer_open_sinks d codec (?s\<lparr>sock := drop 4 (sock ?s)\<rparr>)
          = (True, \<lparr>sock = stream, trace = tr @ opens 0 n\<rparr>)"
    by (simp add: sc_demuxer_open_sinks_accepting [OF assms(4)] length_be32 add_events_def)
  with assms t show ?thesis
    by (intro run_demuxer_reading) (simp_all add: length_be32)
qed

lemma session_events_closed:
  assumes "run_demuxer env d \<lparr>sock = bytes, trace = tr\<rparr>
             = (case Return eos \<lparr>sock = [], trace = tr @ es\<rparr> of
                  Abort w \<Rightarrow> Abort w
                | Return eos s3 \<Rightarrow> on_ended eos (sc_demuxer_close_sinks d s3))"
    and "sinks d = replicate n accepting_sink"
  shows "session_events env d \<lparr>sock = bytes, trace = tr\<rparr> = es @ closes n @ [EvEnded eos]"
  using assms
  by (simp add: session_events_def on_ended_trace sc_demuxer_close_sinks_trace sink_count_def)

lemma merge_config:
  assumes "merger_merge env = sc_packet_merger_merge"
  shows "merge_config_packet env (Some m) (packet_of t True k C)
           = (True, Some (Accumulating (pending m @ C)), blank_packet)"
  using assms by (simp add: merge_config_packet_def sc_packet_merger_merge_def packet_of_def)

lemma merge_media:
  assumes "merger_merge env = sc_packet_merger_merge" and "(ts :: u64) < 2 ^ 62"
  shows "merge_config_packet env (Some m) (packet_of ts False k M)
           = (True, Some Idle, packet_of ts False k (pending m @ M))"
  using assms ts_not_nopts [OF assms(2)]
  by (cases m) (simp_all add: merge_config_packet_def sc_packet_merger_merge_def packet_of_def)

lemma run_demuxer_no_merger:
  assumes "sc_demuxer_to_avcodec_id tag \<noteq> AV_CODEC_ID_NONE"
    and "avcodec_find_decoder env (sc_demuxer_to_avcodec_id tag) = Some codec"
    and "codec_type codec = AVMEDIA_TYPE_AUDIO"
  shows "run_demuxer (env\<lparr>merger_init := mi, merger_merge := mm\<rparr>) d
           \<lparr>sock = be32 tag @ stream, trace = tr\<rparr>
         = run_demuxer env d \<lparr>sock = be32 tag @ stream, trace = tr\<rparr>"
proof -
  let ?s = "\<lparr>sock = be32 tag @ stream, trace = tr\<rparr>"
  let ?env = "env\<lparr>merger_init := mi, merger_merge := mm\<rparr>"
  let ?s1 = "\<lparr>sock = stream, trace = tr\<rparr>"
  have t: "sc_demuxer_recv_codec_id ?s = (Some tag, ?s1)"
    using sc_read32be_be32 [of tag "[]"]
    by (simp add: sc_demuxer_recv_codec_id_tag length_be32)
  obtain ok s2 where o: "sc_demuxer_open_sinks d codec ?s1 = (ok, s2)"
    by (cases "sc_demuxer_open_sinks d codec ?s1") auto
  show ?thesis
    using assms
    by (cases ok) (simp_all add: run_demuxer_def t o Let_def demux_loop_no_merger)
qed

text \<open>
  C1, as stated, fails: \<open>run_demuxer\<close> pushes the packet after every merge that returned
  \<open>true\<close>, so each config packet, which the merger has emptied, gives a push of the blank
  packet. The three wire packets give three pushes, and a config packet before the end of
  the stream gives one.
\<close>

theorem emptied_config_packets_are_pushed:
  "pushed_packets (session_events sample_env one_sink
      (on_wire (tag_h264 @ wire_packet 0 True False [1] @ wire_packet 0 True False [2]
                  @ wire_packet 5 False True [3])))
     = [blank_packet, blank_packet, packet_of 5 False True [1, 2, 3]]
   \<and> pushed_packets (session_events sample_env one_sink
        (on_wire (tag_h264 @ wire_packet 0 True False [1])))
     = [blank_packet]"
  by code_simp

text \<open>
  C1, amended. In a video session whose sinks accept everything and whose allocations
  succeed, with the merger of the specification: after the config packets with payloads
  \<open>cfg1\<close> and \<open>cfg2\<close>, the one packet with a payload that reaches the sinks is the
  packet pushed for the media packet with payload \<open>M\<close> and timestamp \<open>T\<close>, with the
  payload \<open>cfg1 @ cfg2 @ M\<close> and the timestamp \<open>T\<close>; a media packet that finds the
  merger idle is pushed with payload and timestamp unchanged; no payload of a config packet
  that the end of the stream follows is pushed. Before that, each config packet has given
  one push of the packet that the merger left, which is blank.
\<close>

theorem video_media_packet_carries_config:
  assumes merger: "merger_init env = sc_packet_merger_init"
      "merger_merge env = sc_packet_merger_merge"
    and alloc: "av_packet_alloc_ok env = (\<lambda>_. True)" "av_new_packet_ok env = (\<lambda>_ _. True)"
    and codec: "sc_demuxer_to_avcodec_id tag \<noteq> AV_CODEC_ID_NONE"
      "avcodec_find_decoder env (sc_demuxer_to_avcodec_id tag) = Some codec"
      "codec_type codec = AVMEDIA_TYPE_VIDEO"
    and sinks: "sinks d = replicate n accepting_sink"
    and wf: "well_formed (t1, True, k1, cfg1)" "well_formed (t2, True, k2, cfg2)"
      "well_formed (T, False, k, M)"
    and rest: "length rest < SC_PACKET_HEADER_SIZE"
  shows "session_events env d
           \<lparr>sock = be32 tag @ wire_packet t1 True k1 cfg1 @ wire_packet t2 True k2 cfg2
                      @ wire_packet T False k M @ rest,
            trace = tr\<rparr>
         = opens 0 n @ pushes blank_packet 0 n @ pushes blank_packet 0 n
             @ pushes (packet_of T False k (cfg1 @ cfg2 @ M)) 0 n @ closes n @ [EvEnded True]
       \<and> session_events env d \<lparr>sock = be32 tag @ wire_packet T False k M @ rest, trace = tr\<rparr>
         = opens 0 n @ pushes (packet_of T False k M) 0 n @ closes n @ [EvEnded True]
       \<and> session_events env d
           \<lparr>sock = be32 tag @ wire_packet t1 True k1 cfg1 @ rest, trace = tr\<rparr>
         = opens 0 n @ pushes blank_packet 0 n @ closes n @ [EvEnded True]"
proof (intro conjI)
  note run = run_demuxer_stream [OF codec(1,2) alloc(1) sinks]
  note step = demux_loop_wire [OF alloc(2) sinks]
  from wf have w1: "t1 < 2 ^ 62" "cfg1 \<noteq> []" "length cfg1 < 2 ^ 32"
    and w2: "t2 < 2 ^ 62" "cfg2 \<noteq> []" "length cfg2 < 2 ^ 32"
    and w3: "T < 2 ^ 62" "M \<noteq> []" "length M < 2 ^ 32"
    by (simp_all add: frame_simps)
  let ?m0 = "Some Idle :: sc_packet_merger option"
  let ?s0 = "\<lambda>stream. \<lparr>sock = stream, trace = tr @ opens 0 n\<rparr>"
  have m0: "(if codec_type codec = AVMEDIA_TYPE_VIDEO then Some (merger_init env) else None)
              = ?m0"
    using merger(1) codec(3) by (simp add: sc_packet_merger_init_def)
  have l1: "demux_loop env d ?m0 (?s0 (wire_packet t1 True k1 cfg1 @ stream))
              = demux_loop env d (Some (Accumulating cfg1))
                  \<lparr>sock = stream, trace = tr @ opens 0 n @ pushes blank_packet 0 n\<rparr>"
    for stream
    using step [OF w1 _ merge_config [OF merger(2), of Idle t1 k1 cfg1],
                of "?s0 (wire_packet t1 True k1 cfg1 @ stream)" stream]
    by (simp add: add_events_def)
  have l2: "demux_loop env d (Some (Accumulating cfg1))
                \<lparr>sock = wire_packet t2 True k2 cfg2 @ stream, trace = es\<rparr>
              = demux_loop env d (Some (Accumulating (cfg1 @ cfg2)))
                  \<lparr>sock = stream, trace = es @ pushes blank_packet 0 n\<rparr>" for stream es
    using step [OF w2 _ merge_config [OF merger(2), of "Accumulating cfg1" t2 k2 cfg2],
                of "\<lparr>sock = wire_packet t2 True k2 cfg2 @ stream, trace = es\<rparr>" stream]
    by (simp add: add_events_def)
  have l3: "demux_loop env d (Some m) \<lparr>sock = wire_packet T False k M @ stream, trace = es\<rparr>
              = demux_loop env d (Some Idle)
                  \<lparr>sock = stream,
                   trace = es @ pushes (packet_of T False k (pending m @ M)) 0 n\<rparr>"
    for stream es m
    using step [OF w3 _ merge_media [OF merger(2) w3(1), of m k M],
                of "\<lparr>sock = wire_packet T False k M @ stream, trace = es\<rparr>" stream]
    by (simp add: add_events_def)
  have e: "demux_loop env d mg \<lparr>sock = rest, trace = es\<rparr>
             = Return True \<lparr>sock = [], trace = es\<rparr>" for mg es
    using demux_loop_eos [of "\<lparr>sock = rest, trace = es\<rparr>" env d mg] rest by simp
  show "session_events env d
           \<lparr>sock = be32 tag @ wire_packet t1 True k1 cfg1 @ wire_packet t2 True k2 cfg2
                      @ wire_packet T False k M @ rest,
            trace = tr\<rparr>
         = opens 0 n @ pushes blank_packet 0 n @ pushes blank_packet 0 n
             @ pushes (packet_of T False k (cfg1 @ cfg2 @ M)) 0 n @ closes n @ [EvEnded True]"
    using session_events_closed [OF _ sinks, of env _ tr True
        "opens 0 n @ pushes blank_packet 0 n @ pushes blank_packet 0 n
           @ pushes (packet_of T False k (cfg1 @ cfg2 @ M)) 0 n"]
    by (simp add: run m0 l1 l2 l3 e)
  show "session_events env d \<lparr>sock = be32 tag @ wire_packet T False k M @ rest, trace = tr\<rparr>
         = opens 0 n @ pushes (packet_of T False k M) 0 n @ closes n @ [EvEnded True]"
    using session_events_closed [OF _ sinks, of env _ tr True
        "opens 0 n @ pushes (packet_of T False k M) 0 n"]
    by (simp add: run m0 l3 e)
  show "session_events env d
           \<lparr>sock = be32 tag @ wire_packet t1 True k1 cfg1 @ rest, trace = tr\<rparr>
         = opens 0 n @ pushes blank_packet 0 n @ closes n @ [EvEnded True]"
    using session_events_closed [OF _ sinks, of env _ tr True
        "opens 0 n @ pushes blank_packet 0 n"]
    by (simp add: run m0 l1 e)
qed

theorem video_media_packet_carries_config_witness:
  "merger_init sample_env = sc_packet_merger_init
   \<and> merger_merge sample_env = sc_packet_merger_merge
   \<and> av_packet_alloc_ok sample_env = (\<lambda>_. True)
   \<and> av_new_packet_ok sample_env = (\<lambda>_ _. True)
   \<and> sc_demuxer_to_avcodec_id 0x68323634 \<noteq> AV_CODEC_ID_NONE
   \<and> avcodec_find_decoder sample_env (sc_demuxer_to_avcodec_id 0x68323634) = Some h264_codec
   \<and> codec_type h264_codec = AVMEDIA_TYPE_VIDEO
   \<and> sinks one_sink = replicate 1 accepting_sink
   \<and> well_formed (0, True, False, [1])
   \<and> well_formed (0, True, False, [2])
   \<and> well_formed (5, False, True, [3])
   \<and> length ([] :: u8 list) < SC_PACKET_HEADER_SIZE
   \<and> session_events sample_env one_sink
           \<lparr>sock = be32 0x68323634 @ wire_packet 0 True False [1] @ wire_packet 0 True False [2]
                      @ wire_packet 5 False True [3] @ [],
            trace = []\<rparr>
         = opens 0 1 @ pushes blank_packet 0 1 @ pushes blank_packet 0 1
             @ pushes (packet_of 5 False True ([1] @ [2] @ [3])) 0 1 @ closes 1 @ [EvEnded True]
   \<and> session_events sample_env one_sink
           \<lparr>sock = be32 0x68323634 @ wire_packet 5 False True [3] @ [], trace = []\<rparr>
         = opens 0 1 @ pushes (packet_of 5 False True [3]) 0 1 @ closes 1 @ [EvEnded True]
   \<and> session_events sample_env one_sink
           \<lparr>sock = be32 0x68323634 @ wire_packet 0 True False [1] @ [], trace = []\<rparr>
         = opens 0 1 @ pushes blank_packet 0 1 @ closes 1 @ [EvEnded True]"
proof -
  have h1: "merger_init sample_env = sc_packet_merger_init"
    and h2: "merger_merge sample_env = sc_packet_merger_merge"
    and h3: "av_packet_alloc_ok sample_env = (\<lambda>_. True)"
    and h4: "av_new_packet_ok sample_env = (\<lambda>_ _. True)"
    by (simp_all add: sample_env_def)
  have h5: "sc_demuxer_to_avcodec_id 0x68323634 \<noteq> AV_CODEC_ID_NONE"
    and h6: "avcodec_find_decoder sample_env (sc_demuxer_to_avcodec_id 0x68323634)
               = Some h264_codec"
    and h7: "codec_type h264_codec = AVMEDIA_TYPE_VIDEO"
    by (simp_all add: sc_demuxer_to_avcodec_id_def SC_CODEC_ID_H264_def sample_env_def
          sample_find_decoder_def h264_codec_def)
  have h8: "sinks one_sink = replicate 1 accepting_sink"
    by (simp add: one_sink_def)
  have h9: "well_formed (0, True, False, [1])"
    and h10: "well_formed (0, True, False, [2])"
    and h11: "well_formed (5, False, True, [3])"
    by (simp_all add: well_formed_def)
  have h12: "length ([] :: u8 list) < SC_PACKET_HEADER_SIZE"
    by (simp add: SC_PACKET_HEADER_SIZE_def)
  note t = video_media_packet_carries_config
    [where tr = "[]", OF h1 h2 h3 h4 h5 h6 h7 h8 h9 h10 h11 h12]
  show ?thesis
    by (intro conjI h1 h2 h3 h4 h5 h6 h7 h8 h9 h10 h11 h12 t [THEN conjunct1]
          t [THEN conjunct2, THEN conjunct1] t [THEN conjunct2, THEN conjunct2])
qed

text \<open>
  C8. In a session whose codec has the audio media type the merger plays no part: the
  session is the same whatever \<open>sc_packet_merger_init\<close> and \<open>sc_packet_merger_merge\<close>
  are. With sinks that accept everything and allocations that succeed, every well-formed
  wire packet, config or not, is pushed to the sinks on its own, with the payload it has on
  the wire.
\<close>

theorem audio_bypass:
  assumes "sc_demuxer_to_avcodec_id tag \<noteq> AV_CODEC_ID_NONE"
    and "avcodec_find_decoder env (sc_demuxer_to_avcodec_id tag) = Some codec"
    and "codec_type codec = AVMEDIA_TYPE_AUDIO"
  shows "run_demuxer (env\<lparr>merger_init := mi, merger_merge := mm\<rparr>) d
           \<lparr>sock = be32 tag @ stream, trace = tr\<rparr>
         = run_demuxer env d \<lparr>sock = be32 tag @ stream, trace = tr\<rparr>
       \<and> (av_packet_alloc_ok env = (\<lambda>_. True) \<and> av_new_packet_ok env = (\<lambda>_ _. True)
            \<and> sinks d = replicate n accepting_sink \<and> (\<forall>f\<in>set fs. well_formed f)
            \<and> length rest < SC_PACKET_HEADER_SIZE
          \<longrightarrow> session_events env d
                \<lparr>sock = be32 tag @ concat (map wire_frame fs) @ rest, trace = tr\<rparr>
              = opens 0 n @ concat (map (\<lambda>f. pushes (frame_packet f) 0 n) fs)
                  @ closes n @ [EvEnded True])"
proof (intro conjI impI)
  show "run_demuxer (env\<lparr>merger_init := mi, merger_merge := mm\<rparr>) d
           \<lparr>sock = be32 tag @ stream, trace = tr\<rparr>
         = run_demuxer env d \<lparr>sock = be32 tag @ stream, trace = tr\<rparr>"
    using assms by (rule run_demuxer_no_merger)
next
  assume a: "av_packet_alloc_ok env = (\<lambda>_. True) \<and> av_new_packet_ok env = (\<lambda>_ _. True)
            \<and> sinks d = replicate n accepting_sink \<and> (\<forall>f\<in>set fs. well_formed f)
            \<and> length rest < SC_PACKET_HEADER_SIZE"
  then have alloc: "av_packet_alloc_ok env = (\<lambda>_. True)" "av_new_packet_ok env = (\<lambda>_ _. True)"
    and sinks: "sinks d = replicate n accepting_sink"
    and wf: "\<forall>f\<in>set fs. well_formed f" and rest: "length rest < SC_PACKET_HEADER_SIZE"
    by simp_all
  let ?es = "concat (map (\<lambda>f. pushes (frame_packet f) 0 n) fs)"
  have "demux_loop env d None \<lparr>sock = concat (map wire_frame fs) @ rest, trace = tr @ opens 0 n\<rparr>
          = Return True \<lparr>sock = [], trace = tr @ opens 0 n @ ?es\<rparr>"
    using demux_loop_frames [OF alloc(2) sinks wf rest,
        of "\<lparr>sock = concat (map wire_frame fs) @ rest, trace = tr @ opens 0 n\<rparr>"]
    by (simp add: add_events_def)
  then show "session_events env d
                \<lparr>sock = be32 tag @ concat (map wire_frame fs) @ rest, trace = tr\<rparr>
              = opens 0 n @ ?es @ closes n @ [EvEnded True]"
    using session_events_closed [OF _ sinks, of env _ tr True "opens 0 n @ ?es"] assms(3)
    by (simp add: run_demuxer_stream [OF assms(1,2) alloc(1) sinks])
qed

theorem audio_bypass_witness:
  "sc_demuxer_to_avcodec_id 0x6f707573 \<noteq> AV_CODEC_ID_NONE
   \<and> avcodec_find_decoder sample_env (sc_demuxer_to_avcodec_id 0x6f707573) = Some opus_codec
   \<and> codec_type opus_codec = AVMEDIA_TYPE_AUDIO
   \<and> run_demuxer (sample_env\<lparr>merger_init := Accumulating [9],
                               merger_merge := (\<lambda>m p. (False, m, p))\<rparr>) one_sink
        \<lparr>sock = be32 0x6f707573 @ wire_packet 0 True False [1], trace = []\<rparr>
       = run_demuxer sample_env one_sink
           \<lparr>sock = be32 0x6f707573 @ wire_packet 0 True False [1], trace = []\<rparr>
   \<and> av_packet_alloc_ok sample_env = (\<lambda>_. True)
   \<and> av_new_packet_ok sample_env = (\<lambda>_ _. True)
   \<and> sinks one_sink = replicate 1 accepting_sink
   \<and> well_formed (0, True, False, [1])
   \<and> well_formed (5, False, True, [3])
   \<and> length ([] :: u8 list) < SC_PACKET_HEADER_SIZE
   \<and> session_events sample_env one_sink
        \<lparr>sock = be32 0x6f707573
                  @ concat (map wire_frame [(0, True, False, [1]), (5, False, True, [3])]) @ [],
         trace = []\<rparr>
       = opens 0 1
           @ concat (map (\<lambda>f. pushes (frame_packet f) 0 1)
                       [(0, True, False, [1]), (5, False, True, [3])])
           @ closes 1 @ [EvEnded True]"
proof -
  have h1: "sc_demuxer_to_avcodec_id 0x6f707573 \<noteq> AV_CODEC_ID_NONE"
    and h2: "avcodec_find_decoder sample_env (sc_demuxer_to_avcodec_id 0x6f707573)
               = Some opus_codec"
    and h3: "codec_type opus_codec = AVMEDIA_TYPE_AUDIO"
    by (simp_all add: sc_demuxer_to_avcodec_id_def SC_CODEC_ID_H264_def SC_CODEC_ID_H265_def
          SC_CODEC_ID_AV1_def SC_CODEC_ID_OPUS_def sample_env_def sample_find_decoder_def
          opus_codec_def)
  have h4: "av_packet_alloc_ok sample_env = (\<lambda>_. True) \<and> av_new_packet_ok sample_env = (\<lambda>_ _. True)
        \<and> sinks one_sink = replicate 1 accepting_sink
        \<and> (\<forall>f\<in>set [(0, True, False, [1]), (5, False, True, [3])]. well_formed f)
        \<and> length ([] :: u8 list) < SC_PACKET_HEADER_SIZE"
    by (simp add: sample_env_def one_sink_def well_formed_def SC_PACKET_HEADER_SIZE_def)
  note t = audio_bypass [OF h1 h2 h3]
  have h5: "av_packet_alloc_ok sample_env = (\<lambda>_. True)"
    and h6: "av_new_packet_ok sample_env = (\<lambda>_ _. True)"
    and h7: "sinks one_sink = replicate 1 accepting_sink"
    and h8: "well_formed (0, True, False, [1])"
    and h9: "well_formed (5, False, True, [3])"
    and h10: "length ([] :: u8 list) < SC_PACKET_HEADER_SIZE"
    using h4 by simp_all
  show ?thesis
    by (intro conjI h1 h2 h3 h5 h6 h7 h8 h9 h10 t [THEN conjunct1]
          t [THEN conjunct2, THEN mp, OF h4])
qed

end
